theory Spec2Isabelle
  imports Complex_Main "HOL-Library.Multiset"
begin

section \<open>Host values: strings and numbers\<close>

text \<open>
  A JavaScript string is modelled as a \<open>string\<close>, one \<open>char\<close> per code unit (the
  model covers code units below 256). A JavaScript number is a \<open>real\<close> where it is a
  measure (widths, durations, weights) and an \<open>int\<close> where the code uses it as a count or an
  index; rounding of doubles and NaN are not modelled.
\<close>

definition isWhitespace :: "char \<Rightarrow> bool" where
  \<comment> \<open>the white space that \<open>trim\<close> and \<open>trimEnd\<close> strip: TAB, LF, VT, FF, CR, SP, NBSP\<close>
  "isWhitespace c = (of_char c \<in> {9, 10, 11, 12, 13, 32, 160 :: nat})"

definition trimEnd :: "string \<Rightarrow> string" where
  "trimEnd s = rev (dropWhile isWhitespace (rev s))"

definition trimStart :: "string \<Rightarrow> string" where
  "trimStart s = dropWhile isWhitespace s"

definition trim :: "string \<Rightarrow> string" where
  "trim s = trimEnd (trimStart s)"

definition startsWith :: "string \<Rightarrow> string \<Rightarrow> bool" where
  \<comment> \<open>\<open>s.startsWith(p)\<close>\<close>
  "startsWith s p = (take (length p) s = p)"

definition endsWith :: "string \<Rightarrow> string \<Rightarrow> bool" where
  \<comment> \<open>\<open>s.endsWith(p)\<close>\<close>
  "endsWith s p = (length p \<le> length s \<and> drop (length s - length p) s = p)"

definition slice_from :: "nat \<Rightarrow> string \<Rightarrow> string" where
  \<comment> \<open>\<open>s.slice(n)\<close> for \<open>n \<ge> 0\<close>\<close>
  "slice_from n s = drop n s"

definition slice_between :: "nat \<Rightarrow> nat \<Rightarrow> string \<Rightarrow> string" where
  \<comment> \<open>\<open>s.slice(n, -k)\<close> for \<open>n \<ge> 0\<close>, \<open>k > 0\<close>: the end index is \<open>max (length - k) 0\<close>,
      and the result is empty when the start is not before the end\<close>
  "slice_between n k s = drop n (take (length s - k) s)"

fun split_space :: "string \<Rightarrow> string list" where
  \<comment> \<open>\<open>s.split(' ')\<close>: the empty string gives one empty word\<close>
  "split_space [] = [[]]"
| "split_space (c # cs) =
     (if c = CHR '' '' then [] # split_space cs
      else (case split_space cs of [] \<Rightarrow> [[c]] | w # ws \<Rightarrow> (c # w) # ws))"

definition or_default :: "string option \<Rightarrow> string \<Rightarrow> string" where
  \<comment> \<open>\<open>v || d\<close> on a string that may be undefined: undefined and the empty string are falsy\<close>
  "or_default v d = (case v of None \<Rightarrow> d | Some s \<Rightarrow> if s = [] then d else s)"

definition js_rem :: "int \<Rightarrow> int \<Rightarrow> int" where
  \<comment> \<open>\<open>a % b\<close> on integers: the remainder takes the sign of the dividend\<close>
  "js_rem a b = sgn a * (\<bar>a\<bar> mod \<bar>b\<bar>)"

fun bitLength :: "nat \<Rightarrow> nat" where
  \<comment> \<open>the number of binary digits of a natural number\<close>
  "bitLength n = (if n = 0 then 0 else Suc (bitLength (n div 2)))"

declare bitLength.simps [simp del]

definition nearestDouble :: "int \<Rightarrow> int" where
  \<comment> \<open>the double nearest to an integer: of an integer with more than 53 binary digits the
      digits after the first 53 are rounded away, a tie going to the even significand. The
      integers met here are a double plus one, which does not overflow\<close>
  "nearestDouble x =
     (let a = \<bar>x\<bar>; e = int (bitLength (nat a)) - 53 in
      if e \<le> 0 then x
      else
        (let u = 2 ^ nat e; q = a div u; r = a mod u;
             m = (if 2 * r < u then q else if u < 2 * r then q + 1
                  else if even q then q else q + 1)
         in sgn x * (m * u)))"

definition js_index :: "'a list \<Rightarrow> int \<Rightarrow> 'a option" where
  \<comment> \<open>\<open>xs[i]\<close>: undefined outside the array\<close>
  "js_index xs i = (if 0 \<le> i \<and> i < int (length xs) then Some (xs ! nat i) else None)"

section \<open>Double-precision numbers\<close>

text \<open>
  A number of the source is a double: a finite value, an infinity, or \<open>NaN\<close>. The finite
  doubles are the reals \<open>m * 2\<^sup>e\<close> with \<open>m\<close> an integer below \<open>2\<^sup>5\<^sup>3\<close> in size and
  \<open>e\<close> not below \<open>-1074\<close>, themselves below \<open>2\<^sup>1\<^sup>0\<^sup>2\<^sup>4\<close> in size. The sign of zero is not
  kept: no operation used here tells the two zeros apart. An arithmetic operation gives the
  exact result rounded to the nearest double, a tie going to the even significand.
\<close>

datatype double = Finite real | PosInfinity | NegInfinity | NaN

definition pow2 :: "int \<Rightarrow> real" where
  "pow2 e = (if 0 \<le> e then 2 ^ nat e else 1 / 2 ^ nat (- e))"

definition binaryExponent :: "real \<Rightarrow> int" where
  \<comment> \<open>of a positive \<open>x\<close>, the \<open>e\<close> with \<open>2\<^sup>e \<le> x < 2\<^sup>e\<^sup>+\<^sup>1\<close>\<close>
  "binaryExponent x =
     (if 1 \<le> x then int (bitLength (nat \<lfloor>x\<rfloor>)) - 1
      else - int (bitLength (nat (\<lceil>1 / x\<rceil> - 1))))"

definition roundHalfEven :: "real \<Rightarrow> int" where
  \<comment> \<open>the nearest integer, a tie going to the even one\<close>
  "roundHalfEven r =
     (let f = \<lfloor>r\<rfloor>; d = r - of_int f in
      if d < 1 / 2 then f else if 1 / 2 < d then f + 1 else if even f then f else f + 1)"

definition roundDouble :: "real \<Rightarrow> double" where
  \<comment> \<open>the double nearest to a real: 53 significant binary digits, a unit in the last place
      not below \<open>2\<^sup>-\<^sup>1\<^sup>0\<^sup>7\<^sup>4\<close>, and an infinity from \<open>2\<^sup>1\<^sup>0\<^sup>2\<^sup>4\<close> on\<close>
  "roundDouble x =
     (if x = 0 then Finite 0
      else
        (let e = max (binaryExponent \<bar>x\<bar> - 52) (- 1074);
             y = of_int (roundHalfEven (x / pow2 e)) * pow2 e
         in if 2 ^ 1024 \<le> y then PosInfinity
            else if y \<le> - (2 ^ 1024) then NegInfinity
            else Finite y))"

fun double_add :: "double \<Rightarrow> double \<Rightarrow> double" where
  \<comment> \<open>\<open>a + b\<close>\<close>
  "double_add (Finite x) (Finite y) = roundDouble (x + y)"
| "double_add NaN b = NaN"
| "double_add a NaN = NaN"
| "double_add PosInfinity NegInfinity = NaN"
| "double_add NegInfinity PosInfinity = NaN"
| "double_add PosInfinity b = PosInfinity"
| "double_add a PosInfinity = PosInfinity"
| "double_add NegInfinity b = NegInfinity"
| "double_add a NegInfinity = NegInfinity"

fun double_neg :: "double \<Rightarrow> double" where
  "double_neg (Finite x) = Finite (- x)"
| "double_neg PosInfinity = NegInfinity"
| "double_neg NegInfinity = PosInfinity"
| "double_neg NaN = NaN"

definition double_sub :: "double \<Rightarrow> double \<Rightarrow> double" where
  \<comment> \<open>\<open>a - b\<close>\<close>
  "double_sub a b = double_add a (double_neg b)"

definition divideBy :: "double \<Rightarrow> real \<Rightarrow> double" where
  \<comment> \<open>\<open>a / c\<close> for a positive constant \<open>c\<close>\<close>
  "divideBy a c =
     (case a of Finite x \<Rightarrow> roundDouble (x / c) | PosInfinity \<Rightarrow> PosInfinity
      | NegInfinity \<Rightarrow> NegInfinity | NaN \<Rightarrow> NaN)"

definition or_double :: "double option \<Rightarrow> double \<Rightarrow> double" where
  \<comment> \<open>\<open>v || d\<close> on a number that may be undefined: undefined, \<open>0\<close> and \<open>NaN\<close> are falsy\<close>
  "or_double v d = (case v of None \<Rightarrow> d | Some a \<Rightarrow> if a = Finite 0 \<or> a = NaN then d else a)"

definition numberOf :: "double option \<Rightarrow> double" where
  \<comment> \<open>an operand of arithmetic that may be undefined: undefined counts as \<open>NaN\<close>\<close>
  "numberOf v = (case v of None \<Rightarrow> NaN | Some a \<Rightarrow> a)"

fun finiteValue :: "double \<Rightarrow> real" where
  \<comment> \<open>the value of a finite double\<close>
  "finiteValue (Finite x) = x"
| "finiteValue a = 0"

definition representable :: "real \<Rightarrow> bool" where
  \<comment> \<open>the real is a double: rounding leaves it as it is\<close>
  "representable x = (roundDouble x = Finite x)"

section \<open>Colour resolution (utils/color.ts)\<close>

text \<open>
  The table of colour variables is a plain object: the map holds its own entries, and a key
  that is no entry of its own is looked up in \<open>Object.prototype\<close>, whose members are
  functions (and, under \<open>__proto__\<close>, the prototype itself), all of them truthy. So
  \<open>variables[key] || '#000000'\<close> is a string, or the inherited member of that name.
\<close>

datatype ColourValue = ColourString string | Inherited string

definition objectPrototypeNames :: "string list" where
  \<comment> \<open>the names of the members of \<open>Object.prototype\<close>\<close>
  "objectPrototypeNames =
     [''constructor'', ''__defineGetter__'', ''__defineSetter__'', ''hasOwnProperty'',
      ''__lookupGetter__'', ''__lookupSetter__'', ''isPrototypeOf'', ''propertyIsEnumerable'',
      ''toString'', ''valueOf'', ''__proto__'', ''toLocaleString'']"

definition colourOr :: "(string \<rightharpoonup> string) \<Rightarrow> string \<Rightarrow> string \<Rightarrow> ColourValue" where
  \<comment> \<open>\<open>variables[key] || d\<close>: undefined and the empty string are falsy\<close>
  "colourOr variables key d =
     (case variables key of
        Some s \<Rightarrow> if s = [] then ColourString d else ColourString s
      | None \<Rightarrow> if key \<in> set objectPrototypeNames then Inherited key else ColourString d)"

definition resolveColor :: "string \<Rightarrow> (string \<rightharpoonup> string) \<Rightarrow> ColourValue" where
  "resolveColor color variables =
     (if startsWith color ''{{'' \<and> endsWith color ''}}'' then
        (let key = trim (slice_between 2 2 color) in colourOr variables key ''#000000'')
      else if startsWith color ''$'' then
        (let key = slice_from 1 color in colourOr variables key ''#000000'')
      else ColourString color)"

section \<open>Templates (types.ts)\<close>

text \<open>
  The interfaces of \<open>types.ts\<close> as records, its unions as datatypes, an optional field
  as an \<open>option\<close>. The fields \<open>x\<close>, \<open>y\<close>, \<open>width\<close>, \<open>height\<close> of a layer are
  \<open>layer_x\<close> ... \<open>layer_height\<close> here, and a few other field names carry the name of their
  interface as a prefix, since a field name is a constant of the whole theory. The constant
  field \<open>source: 'user_image'\<close> is left out.
\<close>

datatype OutputFormat = PNG | MP4

datatype Anchor = TopLeft | Center | BottomLeft | BottomRight

datatype Fit = Cover | Contain | Fill

datatype FontWeight = Regular | Medium | Semibold | Bold

datatype Align = AlignLeft | AlignCenter | AlignRight

datatype VerticalAlign = Top | Middle | Bottom

datatype TextTransform = Uppercase | Lowercase | NoTransform

datatype TransitionType = Fade | SlideLeft | SlideRight | Zoom | Crossfade

record Shadow =
  blur :: real
  offsetX :: real
  offsetY :: real
  shadow_color :: string

record Stroke =
  stroke_color :: string
  stroke_width :: real

record BaseLayer =
  layer_x :: real
  layer_y :: real
  layer_width :: real
  layer_height :: real
  anchor :: "Anchor option"
  opacity :: "real option"
  borderRadius :: "real option"
  visible :: "bool option"

record ImageLayer = BaseLayer +
  image_index :: int
  image_fit :: Fit
  shadow :: "Shadow option"

record TextLayer = BaseLayer +
  content :: string
  fontFamily :: string
  fontSize :: real
  fontWeight :: FontWeight
  text_color :: string
  align :: Align
  verticalAlign :: "VerticalAlign option"
  text_maxLines :: "int option"
  lineHeight :: "real option"
  textTransform :: "TextTransform option"
  padding :: "real option"
  letterSpacing :: "real option"

record RectLayer = BaseLayer +
  rect_fill :: string
  stroke :: "Stroke option"

record LogoLayer = BaseLayer +
  logo_fit :: Fit
  logo_padding :: "real option"
  logo_background :: "string option"

record AccentBarLayer = BaseLayer +
  bar_color :: string

datatype LayerDefinition =
  Image ImageLayer
| Text TextLayer
| Rect RectLayer
| Logo LogoLayer
| AccentBar AccentBarLayer

datatype BackgroundDef =
  Solid string
| Gradient "string list" real
| BgImage int

record FrameDefinition =
  durationMs :: "double option"
  background :: BackgroundDef
  layers :: "LayerDefinition list"

record Transition =
  transition_type :: TransitionType
  transition_durationMs :: double

record TemplateDefinition =
  template_id :: string
  template_name :: string
  reference :: string
  outputFormat :: OutputFormat
  width :: real
  height :: real
  imageCount :: int
  categoryKeys :: "string list"
  fps :: "real option"
  duration :: "real option"
  frames :: "FrameDefinition list"
  transition :: "Transition option"

record TemplateWithMeta =
  template :: TemplateDefinition
  airtableRecordId :: string
  rotationWeight :: real
  meta_categoryKeys :: "string list"

record FormatState =
  lastIndex :: int

record RotationState =
  png :: FormatState
  mp4 :: FormatState

definition sampleTemplate :: "string \<Rightarrow> OutputFormat \<Rightarrow> int \<Rightarrow> FrameDefinition list \<Rightarrow> TemplateDefinition" where
  \<comment> \<open>a 1080 by 1080 template with the given id, output format, image count and frames\<close>
  "sampleTemplate i format n fs =
     \<lparr>template_id = i, template_name = i, reference = i, outputFormat = format,
      width = 1080, height = 1080, imageCount = n, categoryKeys = [], fps = None,
      duration = None, frames = fs, transition = None\<rparr>"

definition sampleMeta :: "string \<Rightarrow> OutputFormat \<Rightarrow> int \<Rightarrow> real \<Rightarrow> string list \<Rightarrow> TemplateWithMeta" where
  \<comment> \<open>a catalogue entry: record id, output format, image count, rotation weight, category keys\<close>
  "sampleMeta rid format n w cats =
     \<lparr>template = sampleTemplate rid format n [], airtableRecordId = rid,
      rotationWeight = w, meta_categoryKeys = cats\<rparr>"

section \<open>Rotation pool and round-robin selection (templates/registry.ts)\<close>

text \<open>
  \<open>templatesByAirtableId\<close> is a \<open>Map\<close> keyed by record id; \<open>getRotationPool\<close> reads its
  values in insertion order, so the catalogue is the list of those values. The collation
  behind \<open>localeCompare\<close> belongs to the host and is a parameter. \<open>Array.prototype.sort\<close>
  is stable: it is modelled by the stable insertion sort.
\<close>

fun collectCandidates ::
  "OutputFormat \<Rightarrow> int \<Rightarrow> string list option \<Rightarrow> TemplateWithMeta list \<Rightarrow> TemplateWithMeta list" where
  "collectCandidates format imgCount catKeys [] = []"
| "collectCandidates format imgCount catKeys (meta # metas) =
     (let t = template meta in
      if outputFormat t \<noteq> format then collectCandidates format imgCount catKeys metas
      else if imageCount t > imgCount then collectCandidates format imgCount catKeys metas
      else if (case catKeys of None \<Rightarrow> False
               | Some ks \<Rightarrow> length ks > 0 \<and> \<not> list_ex (\<lambda>k. k \<in> set ks) (meta_categoryKeys meta))
           then collectCandidates format imgCount catKeys metas
      else if rotationWeight meta \<le> 0 then collectCandidates format imgCount catKeys metas
      else meta # collectCandidates format imgCount catKeys metas)"

fun insertSorted :: "('a \<Rightarrow> 'a \<Rightarrow> int) \<Rightarrow> 'a \<Rightarrow> 'a list \<Rightarrow> 'a list" where
  "insertSorted cmp a [] = [a]"
| "insertSorted cmp a (b # bs) = (if cmp a b \<le> 0 then a # b # bs else b # insertSorted cmp a bs)"

fun sortWith :: "('a \<Rightarrow> 'a \<Rightarrow> int) \<Rightarrow> 'a list \<Rightarrow> 'a list" where
  \<comment> \<open>\<open>xs.sort(cmp)\<close>: an element goes before the later elements it does not exceed\<close>
  "sortWith cmp [] = []"
| "sortWith cmp (a # as) = insertSorted cmp a (sortWith cmp as)"

definition mathRound :: "real \<Rightarrow> int" where
  \<comment> \<open>\<open>Math.round\<close>: to the nearest integer, a half towards plus infinity\<close>
  "mathRound r = \<lfloor>r + 1 / 2\<rfloor>"

definition poolCopies :: "TemplateWithMeta \<Rightarrow> int" where
  \<comment> \<open>\<open>Math.min(Math.max(1, Math.round(c.rotationWeight)), 10)\<close>\<close>
  "poolCopies c = min (max 1 (mathRound (rotationWeight c))) 10"

fun expandByWeight :: "TemplateWithMeta list \<Rightarrow> TemplateWithMeta list" where
  "expandByWeight [] = []"
| "expandByWeight (c # cs) = replicate (nat (poolCopies c)) c @ expandByWeight cs"

definition getRotationPool ::
  "(string \<Rightarrow> string \<Rightarrow> int) \<Rightarrow> TemplateWithMeta list \<Rightarrow> OutputFormat \<Rightarrow> int \<Rightarrow> string list option
     \<Rightarrow> TemplateWithMeta list" where
  "getRotationPool localeCompare templatesByAirtableId format imgCount catKeys =
     (let candidates = collectCandidates format imgCount catKeys templatesByAirtableId;
          sorted_candidates =
            sortWith (\<lambda>a b. localeCompare (airtableRecordId a) (airtableRecordId b)) candidates
      in expandByWeight sorted_candidates)"

record Selection =
  selected :: "TemplateWithMeta option"
  updatedState :: RotationState

definition selectFromPool ::
  "TemplateWithMeta list \<Rightarrow> RotationState \<Rightarrow> OutputFormat \<Rightarrow> Selection option" where
  \<comment> \<open>\<open>null\<close> is \<open>None\<close>; \<open>pool[nextIndex]\<close> outside the pool is undefined, here
      \<open>selected = None\<close>. \<open>lastIndex\<close> is an integer-valued double, and the sum
      \<open>lastIndex + 1\<close> the double nearest to it; the remainder of doubles is exact\<close>
  "selectFromPool pool state format =
     (if length pool = 0 then None
      else
        (let formatState = (if format = PNG then png state else mp4 state);
             nextIndex = js_rem (nearestDouble (lastIndex formatState + 1)) (int (length pool));
             updatedState = (if format = PNG then state\<lparr>png := \<lparr>lastIndex = nextIndex\<rparr>\<rparr>
                             else state\<lparr>mp4 := \<lparr>lastIndex = nextIndex\<rparr>\<rparr>)
         in Some \<lparr>selected = js_index pool nextIndex, updatedState = updatedState\<rparr>))"

definition formatIndex :: "RotationState \<Rightarrow> OutputFormat \<Rightarrow> int" where
  \<comment> \<open>\<open>state[format].lastIndex\<close>\<close>
  "formatIndex state format = lastIndex (if format = PNG then png state else mp4 state)"

fun selectRounds :: "nat \<Rightarrow> TemplateWithMeta list \<Rightarrow> RotationState \<Rightarrow> OutputFormat \<Rightarrow> int list" where
  \<comment> \<open>the indices chosen by successive calls, each call fed the state the previous one returned\<close>
  "selectRounds 0 pool state format = []"
| "selectRounds (Suc k) pool state format =
     (case selectFromPool pool state format of
        None \<Rightarrow> []
      | Some r \<Rightarrow> formatIndex (updatedState r) format # selectRounds k pool (updatedState r) format)"

definition samplePool :: "TemplateWithMeta list" where
  \<comment> \<open>a pool of three entries\<close>
  "samplePool =
     [sampleMeta ''recA'' PNG 1 1 [], sampleMeta ''recB'' PNG 1 1 [], sampleMeta ''recC'' PNG 1 1 []]"

definition initialState :: "int \<Rightarrow> RotationState" where
  \<comment> \<open>the rotation state \<open>{png: {lastIndex: i}, mp4: {lastIndex: 0}}\<close>\<close>
  "initialState i = \<lparr>png = \<lparr>lastIndex = i\<rparr>, mp4 = \<lparr>lastIndex = 0\<rparr>\<rparr>"

definition eligible :: "OutputFormat \<Rightarrow> int \<Rightarrow> string list option \<Rightarrow> TemplateWithMeta \<Rightarrow> bool" where
  \<comment> \<open>the specification's criteria for a pool entry: the requested format, no more images
      than are available, a category in common with the filter when a non-empty filter is
      given, and a positive rotation weight\<close>
  "eligible format imgCount catKeys meta =
     (outputFormat (template meta) = format
      \<and> imageCount (template meta) \<le> imgCount
      \<and> (case catKeys of None \<Rightarrow> True
          | Some ks \<Rightarrow> ks = [] \<or> (\<exists>k \<in> set (meta_categoryKeys meta). k \<in> set ks))
      \<and> 0 < rotationWeight meta)"

definition consistentComparator :: "('a \<Rightarrow> 'a \<Rightarrow> int) \<Rightarrow> bool" where
  \<comment> \<open>what \<open>sort\<close> asks of its comparator: any two keys are comparable, transitively\<close>
  "consistentComparator cmp =
     ((\<forall>a b. cmp a b \<le> 0 \<or> cmp b a \<le> 0)
      \<and> (\<forall>a b c. cmp a b \<le> 0 \<and> cmp b c \<le> 0 \<longrightarrow> cmp a c \<le> 0))"

fun codeUnitCompare :: "string \<Rightarrow> string \<Rightarrow> int" where
  \<comment> \<open>a sample collation: code unit by code unit, as \<open>localeCompare\<close> orders record ids
      that differ in digits or in letters of one case\<close>
  "codeUnitCompare [] [] = 0"
| "codeUnitCompare [] (b # bs) = - 1"
| "codeUnitCompare (a # as) [] = 1"
| "codeUnitCompare (a # as) (b # bs) =
     (if (of_char a :: nat) < of_char b then - 1
      else if (of_char b :: nat) < of_char a then 1
      else codeUnitCompare as bs)"

definition sampleCatalogue :: "TemplateWithMeta list" where
  \<comment> \<open>five catalogue entries, in the order of their insertion\<close>
  "sampleCatalogue =
     [sampleMeta ''recC'' PNG 2 15 [''plumbing''],
      sampleMeta ''recA'' PNG 1 3 [''plumbing'', ''roofing''],
      sampleMeta ''recB'' PNG 3 1 [''plumbing''],
      sampleMeta ''recD'' MP4 1 1 [''plumbing''],
      sampleMeta ''recE'' PNG 1 0 [''plumbing'']]"

definition intersectsFilter :: "string list \<Rightarrow> TemplateWithMeta \<Rightarrow> bool" where
  \<comment> \<open>the entry has a category key that is in the filter\<close>
  "intersectsFilter ks meta = (\<exists>k \<in> set (meta_categoryKeys meta). k \<in> set ks)"

definition primaryWeight :: "char \<Rightarrow> nat" where
  \<comment> \<open>the rank of a character before case is looked at: a capital letter ranks as its
      small letter\<close>
  "primaryWeight ch =
     (let n = (of_char ch :: nat) in if 65 \<le> n \<and> n \<le> 90 then n + 32 else n)"

fun compareBy :: "(char \<Rightarrow> nat) \<Rightarrow> string \<Rightarrow> string \<Rightarrow> int" where
  \<comment> \<open>the comparison of two strings character by character, on the ranks of the characters\<close>
  "compareBy w [] [] = 0"
| "compareBy w [] (b # bs) = - 1"
| "compareBy w (a # as) [] = 1"
| "compareBy w (a # as) (b # bs) =
     (if w a < w b then - 1 else if w b < w a then 1 else compareBy w as bs)"

definition sampleCollation :: "string \<Rightarrow> string \<Rightarrow> int" where
  \<comment> \<open>a sample collation, as \<open>localeCompare\<close> orders strings of letters and digits: by the
      letters without their case, and between strings that differ in case only, a small
      letter before its capital\<close>
  "sampleCollation a b =
     (let p = compareBy primaryWeight a b in
      if p \<noteq> 0 then p else - codeUnitCompare a b)"

definition mixedCaseCatalogue :: "TemplateWithMeta list" where
  \<comment> \<open>two catalogue entries whose record ids differ in a letter and in its case\<close>
  "mixedCaseCatalogue = [sampleMeta ''recZ'' PNG 1 1 [], sampleMeta ''reca'' PNG 1 1 []]"

section \<open>The image cache (engine/asset-loader.ts)\<close>

text \<open>
  \<open>imageCache\<close> is a \<open>Map\<close>: a list of entries in insertion order, with the operations
  of \<open>Map\<close> on it. The state of the module is the cache and, to count fetches, the list of
  the URLs fetched so far. Fetching, the check of \<open>response.ok\<close>, the conversion of WebP
  and \<open>loadImage\<close> belong to the network and the decoder: they are the parameter
  \<open>download\<close>, which gives the decoded image or the error thrown; none of them touches the
  cache. Calls are taken one after the other.
\<close>

datatype error = Error string | TypeError string

record Image =
  image_name :: string
  image_width :: real
  image_height :: real

record AssetState =
  imageCache :: "(string \<times> Image) list"
  fetched :: "string list"

definition MAX_CACHE_SIZE :: nat where
  "MAX_CACHE_SIZE = 100"

definition mapGet :: "('k \<times> 'v) list \<Rightarrow> 'k \<Rightarrow> 'v option" where
  \<comment> \<open>\<open>m.get(k)\<close>\<close>
  "mapGet m k = map_of m k"

fun mapSet :: "('k \<times> 'v) list \<Rightarrow> 'k \<Rightarrow> 'v \<Rightarrow> ('k \<times> 'v) list" where
  \<comment> \<open>\<open>m.set(k, v)\<close>: a new key goes last, a known key keeps its place\<close>
  "mapSet [] k v = [(k, v)]"
| "mapSet ((k', v') # m) k v = (if k' = k then (k, v) # m else (k', v') # mapSet m k v)"

definition mapDelete :: "('k \<times> 'v) list \<Rightarrow> 'k \<Rightarrow> ('k \<times> 'v) list" where
  \<comment> \<open>\<open>m.delete(k)\<close>\<close>
  "mapDelete m k = filter (\<lambda>e. fst e \<noteq> k) m"

definition loadRemoteImage ::
  "(string \<Rightarrow> error + Image) \<Rightarrow> string \<Rightarrow> AssetState \<Rightarrow> (error + Image) \<times> AssetState" where
  "loadRemoteImage download url st =
     (case mapGet (imageCache st) url of
        Some cached \<Rightarrow> (Inr cached, st)
      | None \<Rightarrow>
          (let st1 = st\<lparr>fetched := fetched st @ [url]\<rparr> in
           case download url of
             Inl e \<Rightarrow> (Inl e, st1)
           | Inr img \<Rightarrow>
               (let evicted =
                      (if length (imageCache st1) \<ge> MAX_CACHE_SIZE then
                         (case imageCache st1 of
                            [] \<Rightarrow> imageCache st1
                          | (firstKey, _) # _ \<Rightarrow>
                              if firstKey \<noteq> [] then mapDelete (imageCache st1) firstKey
                              else imageCache st1)
                       else imageCache st1)
                in (Inr img, st1\<lparr>imageCache := mapSet evicted url img\<rparr>))))"

fun loadSequence :: "(string \<Rightarrow> error + Image) \<Rightarrow> string list \<Rightarrow> AssetState \<Rightarrow> AssetState" where
  \<comment> \<open>the state after loading the given URLs one after the other\<close>
  "loadSequence download [] st = st"
| "loadSequence download (url # urls) st =
     loadSequence download urls (snd (loadRemoteImage download url st))"

definition noAssets :: AssetState where
  \<comment> \<open>the module as loaded: an empty cache, nothing fetched\<close>
  "noAssets = \<lparr>imageCache = [], fetched = []\<rparr>"

definition sampleImage :: Image where
  "sampleImage = \<lparr>image_name = ''photo'', image_width = 800, image_height = 400\<rparr>"

definition sampleDownload :: "string \<Rightarrow> error + Image" where
  \<comment> \<open>a network on which every URL but the empty one gives the sample image\<close>
  "sampleDownload url =
     (if url = [] then Inl (TypeError ''Invalid URL'') else Inr sampleImage)"

definition sampleUrl :: "nat \<Rightarrow> string" where
  \<comment> \<open>distinct URLs: the \<open>n\<close>-th is \<open>n + 1\<close> letters long\<close>
  "sampleUrl n = replicate (Suc n) CHR ''u''"

definition cacheInv :: "AssetState \<Rightarrow> bool" where
  \<comment> \<open>the invariant of the cache: distinct keys, none of them empty, at most
      \<open>MAX_CACHE_SIZE\<close> entries\<close>
  "cacheInv st = (distinct (map fst (imageCache st)) \<and> [] \<notin> fst ` set (imageCache st)
     \<and> length (imageCache st) \<le> MAX_CACHE_SIZE)"

section \<open>Text wrapping (utils/text.ts)\<close>

text \<open>
  \<open>ctx.measureText(s).width\<close> depends on the font set on the context and on the text
  shaping of the host: it is the parameter \<open>measureText\<close>. \<open>maxLines\<close> is a number in the
  source and an integer here. A \<open>TypeError\<close> thrown by the function is the result \<open>Inl\<close>.
\<close>

record WrappedLine =
  line_text :: string
  line_width :: real

definition joinWord :: "string \<Rightarrow> string \<Rightarrow> string" where
  \<comment> \<open>the text \<open>testLine\<close>: the word alone on an empty line, else the line, a space and the word\<close>
  "joinWord currentLine word = (if currentLine \<noteq> [] then currentLine @ '' '' @ word else word)"

fun wrapWords ::
  "(string \<Rightarrow> real) \<Rightarrow> real \<Rightarrow> string list \<Rightarrow> string \<Rightarrow> WrappedLine list
     \<Rightarrow> string \<times> WrappedLine list" where
  \<comment> \<open>the loop over the words: the state is \<open>currentLine\<close> and \<open>lines\<close>\<close>
  "wrapWords measureText maxWidth [] currentLine lines = (currentLine, lines)"
| "wrapWords measureText maxWidth (word # words) currentLine lines =
     (let testLine = joinWord currentLine word in
      if measureText testLine > maxWidth \<and> currentLine \<noteq> [] then
        wrapWords measureText maxWidth words word
          (lines @ [\<lparr>line_text = currentLine, line_width = measureText currentLine\<rparr>])
      else wrapWords measureText maxWidth words testLine lines)"

definition greedyLines :: "(string \<Rightarrow> real) \<Rightarrow> string \<Rightarrow> real \<Rightarrow> WrappedLine list" where
  \<comment> \<open>\<open>lines\<close> as it stands before the truncation to \<open>maxLines\<close>\<close>
  "greedyLines measureText text maxWidth =
     (case wrapWords measureText maxWidth (split_space text) [] [] of
        (currentLine, lines) \<Rightarrow>
          if currentLine \<noteq> [] then
            lines @ [\<lparr>line_text = currentLine, line_width = measureText currentLine\<rparr>]
          else lines)"

definition dropLast :: "string \<Rightarrow> string" where
  \<comment> \<open>\<open>text.slice(0, -1).trimEnd()\<close>\<close>
  "dropLast text = trimEnd (butlast text)"

function ellipsize :: "(string \<Rightarrow> real) \<Rightarrow> real \<Rightarrow> string \<Rightarrow> string" where
  \<comment> \<open>the \<open>while\<close> loop that shortens the last line\<close>
  "ellipsize measureText maxWidth text =
     (if measureText (text @ ''...'') > maxWidth \<and> length text > 0
      then ellipsize measureText maxWidth (dropLast text)
      else text)"
  by pat_completeness auto
termination
proof (relation "measure (\<lambda>(m, w, t). length t)")
  show "wf (measure (\<lambda>(m, w, t). length t))" by simp
next
  fix measureText :: "string \<Rightarrow> real" and maxWidth :: real and s :: string
  assume "maxWidth < measureText (s @ ''...'') \<and> 0 < length s"
  then have "s \<noteq> []" by simp
  moreover have "length (dropLast s) \<le> length (butlast s)"
    using length_dropWhile_le [of isWhitespace "rev (butlast s)"]
    by (simp add: dropLast_def trimEnd_def)
  ultimately have "length (dropLast s) < length s"
    by (cases s rule: rev_cases) simp_all
  then show "((measureText, maxWidth, dropLast s), (measureText, maxWidth, s))
      \<in> measure (\<lambda>(m, w, t). length t)"
    by simp
qed

definition sliceTo :: "int \<Rightarrow> 'a list \<Rightarrow> 'a list" where
  \<comment> \<open>\<open>xs.slice(0, m)\<close>: a negative \<open>m\<close> counts from the end\<close>
  "sliceTo m xs = (if m < 0 then take (length xs - nat (- m)) xs else take (nat m) xs)"

definition wrapText ::
  "(string \<Rightarrow> real) \<Rightarrow> string \<Rightarrow> real \<Rightarrow> int option \<Rightarrow> error + WrappedLine list" where
  \<comment> \<open>\<open>maxLines && ...\<close>: an absent \<open>maxLines\<close> and \<open>0\<close> are falsy; \<open>lastLine.text\<close> on an
      undefined \<open>lastLine\<close> throws\<close>
  "wrapText measureText text maxWidth maxLines =
     (let lines = greedyLines measureText text maxWidth in
      case maxLines of
        None \<Rightarrow> Inr lines
      | Some m \<Rightarrow>
          if m \<noteq> 0 \<and> int (length lines) > m then
            (let truncated = sliceTo m lines in
             case js_index truncated (m - 1) of
               None \<Rightarrow> Inl (TypeError ''lastLine is undefined'')
             | Some lastLine \<Rightarrow>
                 (let t = ellipsize measureText maxWidth (line_text lastLine) in
                  Inr (truncated[nat (m - 1) :=
                         \<lparr>line_text = t @ ''...'', line_width = measureText (t @ ''...'')\<rparr>])))
          else Inr lines)"

definition truncates :: "(string \<Rightarrow> real) \<Rightarrow> string \<Rightarrow> real \<Rightarrow> int option \<Rightarrow> bool" where
  \<comment> \<open>the condition under which \<open>wrapText\<close> enters its truncation branch\<close>
  "truncates measureText text maxWidth maxLines =
     (case maxLines of None \<Rightarrow> False
      | Some m \<Rightarrow> m \<noteq> 0 \<and> int (length (greedyLines measureText text maxWidth)) > m)"

definition monospace :: "string \<Rightarrow> real" where
  \<comment> \<open>a sample measure: a font in which every character is one pixel wide\<close>
  "monospace s = real (length s)"

definition lineOk :: "(string \<Rightarrow> real) \<Rightarrow> real \<Rightarrow> string set \<Rightarrow> WrappedLine \<Rightarrow> bool" where
  \<comment> \<open>a line carries its measured width, and fits or is one of the given words\<close>
  "lineOk measureText maxWidth W l =
     (line_width l = measureText (line_text l)
      \<and> (line_width l \<le> maxWidth \<or> line_text l \<in> W))"

definition finishLines :: "(string \<Rightarrow> real) \<Rightarrow> string \<times> WrappedLine list \<Rightarrow> WrappedLine list" where
  \<comment> \<open>the push of a non-empty \<open>currentLine\<close> after the loop\<close>
  "finishLines measureText r =
     (case r of (currentLine, lines) \<Rightarrow>
        if currentLine \<noteq> [] then
          lines @ [\<lparr>line_text = currentLine, line_width = measureText currentLine\<rparr>]
        else lines)"

definition widening :: "(string \<Rightarrow> real) \<Rightarrow> bool" where
  \<comment> \<open>a measure under which a line is at least as wide as each of the two texts a space joins\<close>
  "widening measureText =
     (\<forall>a b. measureText a \<le> measureText (a @ '' '' @ b) \<and> measureText b \<le> measureText (a @ '' '' @ b))"

section \<open>The canvas (node-canvas, as the renderer uses it)\<close>

text \<open>
  A 2D context is its current drawing state, the stack of the states saved by \<open>save\<close>,
  the current path, and the list of what was painted so far, each painting with the drawing
  state in force when it was made; that list stands for the pixels. An assignment to a
  property of the context stores the value: the host's parsing of colours and fonts is not
  modelled. A style is a colour string, a gradient, or the value \<open>Member k\<close> that
  \<open>resolveColor\<close> gives for an inherited name \<open>k\<close>.
\<close>

datatype PathCmd =
  MoveTo real real
| LineTo real real
| ArcTo real real real real real
| ClosePath

datatype FillStyle =
  Colour string
| Member string
| LinearGradient real real real real "(real \<times> ColourValue) list"

definition styleOf :: "ColourValue \<Rightarrow> FillStyle" where
  \<comment> \<open>the value as assigned to \<open>fillStyle\<close> or \<open>strokeStyle\<close>\<close>
  "styleOf v = (case v of ColourString s \<Rightarrow> Colour s | Inherited k \<Rightarrow> Member k)"

record DrawState =
  globalAlpha :: real
  fillStyle :: FillStyle
  strokeStyle :: FillStyle
  lineWidth :: real
  font :: string
  textBaseline :: string
  shadowBlur :: real
  shadowOffsetX :: real
  shadowOffsetY :: real
  shadowColor :: string
  clipPaths :: "PathCmd list list"

datatype Paint =
  FillRect real real real real
| StrokeRect real real real real
| FillPath "PathCmd list"
| StrokePath "PathCmd list"
| DrawImage Image "real list"
| FillText string real real

record Canvas2D =
  drawState :: DrawState
  saved :: "DrawState list"
  currentPath :: "PathCmd list"
  painted :: "(Paint \<times> DrawState) list"

definition initialDrawState :: DrawState where
  \<comment> \<open>the state of a fresh context\<close>
  "initialDrawState =
     \<lparr>globalAlpha = 1, fillStyle = Colour ''#000000'', strokeStyle = Colour ''#000000'',
      lineWidth = 1,
      font = ''10px sans-serif'', textBaseline = ''alphabetic'', shadowBlur = 0,
      shadowOffsetX = 0, shadowOffsetY = 0, shadowColor = ''rgba(0, 0, 0, 0)'', clipPaths = []\<rparr>"

definition createCanvas :: Canvas2D where
  \<comment> \<open>\<open>createCanvas(w, h).getContext('2d')\<close>: nothing saved, nothing painted\<close>
  "createCanvas = \<lparr>drawState = initialDrawState, saved = [], currentPath = [], painted = []\<rparr>"

definition ctx_save :: "Canvas2D \<Rightarrow> Canvas2D" where
  "ctx_save c = c\<lparr>saved := drawState c # saved c\<rparr>"

definition ctx_restore :: "Canvas2D \<Rightarrow> Canvas2D" where
  \<comment> \<open>with nothing saved, \<open>restore\<close> does nothing\<close>
  "ctx_restore c = (case saved c of [] \<Rightarrow> c | s # ss \<Rightarrow> c\<lparr>drawState := s, saved := ss\<rparr>)"

definition ctx_set :: "(DrawState \<Rightarrow> DrawState) \<Rightarrow> Canvas2D \<Rightarrow> Canvas2D" where
  \<comment> \<open>an assignment to properties of the context\<close>
  "ctx_set f c = c\<lparr>drawState := f (drawState c)\<rparr>"

definition ctx_paint :: "Paint \<Rightarrow> Canvas2D \<Rightarrow> Canvas2D" where
  "ctx_paint p c = c\<lparr>painted := painted c @ [(p, drawState c)]\<rparr>"

definition ctx_clip :: "Canvas2D \<Rightarrow> Canvas2D" where
  "ctx_clip c = ctx_set (\<lambda>s. s\<lparr>clipPaths := clipPaths s @ [currentPath c]\<rparr>) c"

definition ctx_fill :: "Canvas2D \<Rightarrow> Canvas2D" where
  "ctx_fill c = ctx_paint (FillPath (currentPath c)) c"

definition ctx_stroke :: "Canvas2D \<Rightarrow> Canvas2D" where
  "ctx_stroke c = ctx_paint (StrokePath (currentPath c)) c"

definition roundedRect :: "Canvas2D \<Rightarrow> real \<Rightarrow> real \<Rightarrow> real \<Rightarrow> real \<Rightarrow> real \<Rightarrow> Canvas2D" where
  \<comment> \<open>\<open>roundedRect\<close> of the renderer and \<open>roundedRectPath\<close> of utils/image.ts: the same path\<close>
  "roundedRect c x y w h r =
     c\<lparr>currentPath :=
         [MoveTo (x + r) y, LineTo (x + w - r) y, ArcTo (x + w) y (x + w) (y + r) r,
          LineTo (x + w) (y + h - r), ArcTo (x + w) (y + h) (x + w - r) (y + h) r,
          LineTo (x + r) (y + h), ArcTo x (y + h) x (y + h - r) r,
          LineTo x (y + r), ArcTo x y (x + r) y r, ClosePath]\<rparr>"

section \<open>Image fit (utils/image.ts)\<close>

definition drawImageCover ::
  "Canvas2D \<Rightarrow> Image \<Rightarrow> real \<Rightarrow> real \<Rightarrow> real \<Rightarrow> real \<Rightarrow> real \<Rightarrow> Canvas2D" where
  "drawImageCover c img x y w h radius =
     (let c1 = ctx_save c;
          c2 = (if radius > 0 then ctx_clip (roundedRect c1 x y w h radius) else c1);
          imgRatio = image_width img / image_height img;
          boxRatio = w / h;
          src = (if imgRatio > boxRatio
                 then [(image_width img - image_height img * boxRatio) / 2, 0,
                       image_height img * boxRatio, image_height img]
                 else [0, (image_height img - image_width img / boxRatio) / 2,
                       image_width img, image_width img / boxRatio]);
          c3 = ctx_paint (DrawImage img (src @ [x, y, w, h])) c2
      in ctx_restore c3)"

definition drawImageContain ::
  "Canvas2D \<Rightarrow> Image \<Rightarrow> real \<Rightarrow> real \<Rightarrow> real \<Rightarrow> real \<Rightarrow> real \<Rightarrow> Canvas2D" where
  "drawImageContain c img x y w h radius =
     (let c1 = ctx_save c;
          c2 = (if radius > 0 then ctx_clip (roundedRect c1 x y w h radius) else c1);
          imgRatio = image_width img / image_height img;
          boxRatio = w / h;
          dst = (if imgRatio > boxRatio
                 then [x, y + (h - w / imgRatio) / 2, w, w / imgRatio]
                 else [x + (w - h * imgRatio) / 2, y, h * imgRatio, h]);
          c3 = ctx_paint (DrawImage img dst) c2
      in ctx_restore c3)"

section \<open>Variables and fonts (engine/layout-engine.ts, engine/font-manager.ts)\<close>

record RenderVariables =
  var_title :: string
  var_subtitle :: string
  var_body :: string
  var_phone :: string
  service_areas :: string
  primary_colour :: string
  secondary_colour :: string
  logo_url :: string
  user_images :: "string list"
  company_name :: string
  website :: "string option"

datatype JsValue = StringValue string | ArrayValue "string list" | UndefinedValue

definition variableValue :: "RenderVariables \<Rightarrow> string \<Rightarrow> JsValue" where
  \<comment> \<open>\<open>variables[key]\<close>, on the fields of the record\<close>
  "variableValue variables key =
     (if key = ''title'' then StringValue (var_title variables)
      else if key = ''subtitle'' then StringValue (var_subtitle variables)
      else if key = ''body'' then StringValue (var_body variables)
      else if key = ''phone'' then StringValue (var_phone variables)
      else if key = ''service_areas'' then StringValue (service_areas variables)
      else if key = ''primary_colour'' then StringValue (primary_colour variables)
      else if key = ''secondary_colour'' then StringValue (secondary_colour variables)
      else if key = ''logo_url'' then StringValue (logo_url variables)
      else if key = ''user_images'' then ArrayValue (user_images variables)
      else if key = ''company_name'' then StringValue (company_name variables)
      else if key = ''website'' then
        (case website variables of None \<Rightarrow> UndefinedValue | Some s \<Rightarrow> StringValue s)
      else UndefinedValue)"

fun joinWith :: "string \<Rightarrow> string list \<Rightarrow> string" where
  \<comment> \<open>\<open>xs.join(sep)\<close>\<close>
  "joinWith sep [] = []"
| "joinWith sep [s] = s"
| "joinWith sep (s # t # ts) = s @ sep @ joinWith sep (t # ts)"

definition replacement :: "RenderVariables \<Rightarrow> string \<Rightarrow> string" where
  \<comment> \<open>the callback of \<open>replace\<close>\<close>
  "replacement variables key =
     (case variableValue variables key of
        StringValue s \<Rightarrow> s
      | ArrayValue xs \<Rightarrow> joinWith '', '' xs
      | UndefinedValue \<Rightarrow> [])"

definition isWordChar :: "char \<Rightarrow> bool" where
  \<comment> \<open>the class \<open>\w\<close>: a letter, a digit or the underscore\<close>
  "isWordChar c =
     (let n = (of_char c :: nat) in
      (65 \<le> n \<and> n \<le> 90) \<or> (97 \<le> n \<and> n \<le> 122) \<or> (48 \<le> n \<and> n \<le> 57) \<or> n = 95)"

definition placeholderAt :: "string \<Rightarrow> (string \<times> string) option" where
  \<comment> \<open>a match of \<open>{{(\w+)}}\<close> at the start of the text: the key and the text after it\<close>
  "placeholderAt s =
     (if startsWith s ''{{'' then
        (let key = takeWhile isWordChar (drop 2 s); rest = dropWhile isWordChar (drop 2 s) in
         if key \<noteq> [] \<and> startsWith rest ''}}'' then Some (key, drop 2 rest) else None)
      else None)"

function resolveVariables :: "string \<Rightarrow> RenderVariables \<Rightarrow> string" where
  \<comment> \<open>\<open>text.replace(/\{\{(\w+)\}\}/g, ...)\<close>: matches from left to right, the replaced text
      is not scanned again\<close>
  "resolveVariables [] variables = []"
| "resolveVariables (c # cs) variables =
     (case placeholderAt (c # cs) of
        Some (key, rest) \<Rightarrow> replacement variables key @ resolveVariables rest variables
      | None \<Rightarrow> c # resolveVariables cs variables)"
  by pat_completeness auto
termination
proof (relation "measure (\<lambda>(s, v). length s)")
  show "wf (measure (\<lambda>(s, v). length s))" by simp
next
  fix c :: char and cs :: string and variables :: RenderVariables and x2 key rest
  assume "placeholderAt (c # cs) = Some x2" "(key, rest) = x2"
  then have "rest = drop 2 (dropWhile isWordChar (drop 2 (c # cs)))"
    by (auto simp: placeholderAt_def Let_def split: if_splits)
  moreover have "length (dropWhile isWordChar (drop 2 (c # cs))) \<le> length (drop 2 (c # cs))"
    by (rule length_dropWhile_le)
  ultimately have "length rest < length (c # cs)" by simp
  then show "((rest, variables), (c # cs, variables)) \<in> measure (\<lambda>(s, v). length s)" by simp
next
  fix c :: char and cs :: string and variables :: RenderVariables
  show "((cs, variables), (c # cs, variables)) \<in> measure (\<lambda>(s, v). length s)" by simp
qed

definition buildColorVariables :: "RenderVariables \<Rightarrow> (string \<rightharpoonup> string)" where
  "buildColorVariables variables =
     [''primary_colour'' \<mapsto> or_default (Some (primary_colour variables)) ''#235BAA'',
      ''secondary_colour'' \<mapsto> or_default (Some (secondary_colour variables)) ''#FFFFFF'',
      ''primary_color'' \<mapsto> or_default (Some (primary_colour variables)) ''#235BAA'',
      ''secondary_color'' \<mapsto> or_default (Some (secondary_colour variables)) ''#FFFFFF'']"

text \<open>
  What the renderer takes from the host: the measure of a text in a font, the case
  mappings of strings, and the printing of a number.
\<close>

record Host =
  host_measureText :: "string \<Rightarrow> string \<Rightarrow> real"
  host_toUpperCase :: "string \<Rightarrow> string"
  host_toLowerCase :: "string \<Rightarrow> string"
  host_numberToString :: "real \<Rightarrow> string"

definition applyTextTransform :: "Host \<Rightarrow> string \<Rightarrow> TextTransform option \<Rightarrow> string" where
  "applyTextTransform host s transform =
     (case transform of
        Some Uppercase \<Rightarrow> host_toUpperCase host s
      | Some Lowercase \<Rightarrow> host_toLowerCase host s
      | _ \<Rightarrow> s)"

definition weightName :: "FontWeight \<Rightarrow> string" where
  \<comment> \<open>\<open>WEIGHT_MAP[fontWeight] || fontWeight\<close>, on the four weights of the type\<close>
  "weightName fw =
     (case fw of Regular \<Rightarrow> ''normal'' | Medium \<Rightarrow> ''500'' | Semibold \<Rightarrow> ''600'' | Bold \<Rightarrow> ''bold'')"

definition getFontString :: "Host \<Rightarrow> real \<Rightarrow> FontWeight \<Rightarrow> string \<Rightarrow> string" where
  "getFontString host fSize fWeight fFamily =
     weightName fWeight @ '' '' @ host_numberToString host fSize @ ''px '' @ [CHR 0x22] @ fFamily
       @ [CHR 0x22]"

definition or_zero :: "real option \<Rightarrow> real" where
  \<comment> \<open>\<open>v || 0\<close> on a number that may be undefined\<close>
  "or_zero v = (case v of None \<Rightarrow> 0 | Some r \<Rightarrow> r)"

definition or_number :: "real option \<Rightarrow> real \<Rightarrow> real" where
  \<comment> \<open>\<open>v || d\<close> on a number that may be undefined: undefined and \<open>0\<close> are falsy\<close>
  "or_number v d = (case v of None \<Rightarrow> d | Some r \<Rightarrow> if r = 0 then d else r)"

section \<open>The frame compositor (engine/png-renderer.ts)\<close>

text \<open>
  A drawing function takes the context and returns it as it has left it. \<open>drawText\<close> can
  throw, through \<open>wrapText\<close>: a function that can throw returns \<open>Returns c\<close>, or
  \<open>Throws e c\<close> with the context as it stood when the error was thrown. \<open>console.warn\<close>
  is left out.
\<close>

datatype Completion = Returns Canvas2D | Throws error Canvas2D

definition fillRectWith :: "FillStyle \<Rightarrow> real \<Rightarrow> real \<Rightarrow> real \<Rightarrow> real \<Rightarrow> Canvas2D \<Rightarrow> Canvas2D" where
  \<comment> \<open>\<open>ctx.fillStyle = style; ctx.fillRect(x, y, w, h)\<close>\<close>
  "fillRectWith style x y w h c =
     ctx_paint (FillRect x y w h) (ctx_set (\<lambda>s. s\<lparr>fillStyle := style\<rparr>) c)"

fun gradientStops ::
  "(string \<rightharpoonup> string) \<Rightarrow> nat \<Rightarrow> nat \<Rightarrow> string list \<Rightarrow> (real \<times> ColourValue) list" where
  \<comment> \<open>\<open>bg.colors.forEach((color, i) => grad.addColorStop(i / (n - 1), ...))\<close>\<close>
  "gradientStops colorVars n i [] = []"
| "gradientStops colorVars n i (col # cols) =
     (real i / (real n - 1), resolveColor col colorVars) # gradientStops colorVars n (Suc i) cols"

definition drawBackground ::
  "Canvas2D \<Rightarrow> FrameDefinition \<Rightarrow> real \<Rightarrow> real \<Rightarrow> (string \<rightharpoonup> string) \<Rightarrow> Image list \<Rightarrow> Canvas2D" where
  "drawBackground c frame w h colorVars userImages =
     (case background frame of
        Solid col \<Rightarrow> fillRectWith (styleOf (resolveColor col colorVars)) 0 0 w h c
      | Gradient cols angle \<Rightarrow>
          (let rad = angle * pi / 180;
               x1 = w / 2 - cos rad * w / 2;
               y1 = h / 2 - sin rad * h / 2;
               x2 = w / 2 + cos rad * w / 2;
               y2 = h / 2 + sin rad * h / 2;
               grad = LinearGradient x1 y1 x2 y2 (gradientStops colorVars (length cols) 0 cols)
           in fillRectWith grad 0 0 w h c)
      | BgImage i \<Rightarrow>
          (case js_index userImages i of
             Some img \<Rightarrow> drawImageCover c img 0 0 w h 0
           | None \<Rightarrow> c))"

definition isRounded :: "real option \<Rightarrow> bool" where
  \<comment> \<open>\<open>layer.borderRadius && layer.borderRadius > 0\<close>\<close>
  "isRounded r = (case r of None \<Rightarrow> False | Some v \<Rightarrow> v > 0)"

definition drawRect :: "Canvas2D \<Rightarrow> RectLayer \<Rightarrow> (string \<rightharpoonup> string) \<Rightarrow> Canvas2D" where
  "drawRect c layer colorVars =
     (let c1 = ctx_set (\<lambda>s. s\<lparr>fillStyle := styleOf (resolveColor (rect_fill layer) colorVars)\<rparr>) c;
          c2 = (if isRounded (borderRadius layer) then
                  ctx_fill (roundedRect c1 (layer_x layer) (layer_y layer) (layer_width layer)
                              (layer_height layer) (or_zero (borderRadius layer)))
                else ctx_paint (FillRect (layer_x layer) (layer_y layer) (layer_width layer)
                                  (layer_height layer)) c1)
      in case stroke layer of
           None \<Rightarrow> c2
         | Some st \<Rightarrow>
             (let c3 = ctx_set (\<lambda>s. s\<lparr>strokeStyle := styleOf (resolveColor (stroke_color st) colorVars),
                                         lineWidth := stroke_width st\<rparr>) c2
              in if isRounded (borderRadius layer) then
                   ctx_stroke (roundedRect c3 (layer_x layer) (layer_y layer) (layer_width layer)
                                 (layer_height layer) (or_zero (borderRadius layer)))
                 else ctx_paint (StrokeRect (layer_x layer) (layer_y layer) (layer_width layer)
                                   (layer_height layer)) c3))"

definition drawImage :: "Canvas2D \<Rightarrow> ImageLayer \<Rightarrow> Image list \<Rightarrow> Canvas2D" where
  "drawImage c layer userImages =
     (case js_index userImages (image_index layer) of
        None \<Rightarrow> c
      | Some img \<Rightarrow>
          (let c1 = (case shadow layer of
                       None \<Rightarrow> c
                     | Some sh \<Rightarrow>
                         ctx_set (\<lambda>s. s\<lparr>shadowBlur := blur sh, shadowOffsetX := offsetX sh,
                                           shadowOffsetY := offsetY sh,
                                           shadowColor := shadow_color sh\<rparr>) (ctx_save c));
               c2 = (if image_fit layer = Cover then
                       drawImageCover c1 img (layer_x layer) (layer_y layer) (layer_width layer)
                         (layer_height layer) (or_zero (borderRadius layer))
                     else
                       drawImageContain c1 img (layer_x layer) (layer_y layer) (layer_width layer)
                         (layer_height layer) (or_zero (borderRadius layer)))
           in case shadow layer of None \<Rightarrow> c2 | Some sh \<Rightarrow> ctx_restore c2))"

definition drawLogo :: "Canvas2D \<Rightarrow> LogoLayer \<Rightarrow> Image option \<Rightarrow> Canvas2D" where
  "drawLogo c layer logoImage =
     (case logoImage of
        None \<Rightarrow> c
      | Some img \<Rightarrow>
          (let pad = or_zero (logo_padding layer);
               c1 = (case logo_background layer of
                       None \<Rightarrow> c
                     | Some bg \<Rightarrow>
                         if bg \<noteq> [] then
                           fillRectWith (Colour bg) (layer_x layer) (layer_y layer)
                             (layer_width layer) (layer_height layer) c
                         else c);
               innerX = layer_x layer + pad;
               innerY = layer_y layer + pad;
               innerW = layer_width layer - pad * 2;
               innerH = layer_height layer - pad * 2
           in if logo_fit layer = Cover then
                drawImageCover c1 img innerX innerY innerW innerH (or_zero (borderRadius layer))
              else
                drawImageContain c1 img innerX innerY innerW innerH (or_zero (borderRadius layer))))"

definition drawAccentBar :: "Canvas2D \<Rightarrow> AccentBarLayer \<Rightarrow> (string \<rightharpoonup> string) \<Rightarrow> Canvas2D" where
  "drawAccentBar c layer colorVars =
     fillRectWith (styleOf (resolveColor (bar_color layer) colorVars)) (layer_x layer) (layer_y layer)
       (layer_width layer) (layer_height layer) c"

fun drawTextWithSpacing :: "Host \<Rightarrow> Canvas2D \<Rightarrow> string \<Rightarrow> real \<Rightarrow> real \<Rightarrow> real \<Rightarrow> Canvas2D" where
  \<comment> \<open>the loop over the characters; \<open>x\<close> is \<open>currentX\<close>\<close>
  "drawTextWithSpacing host c [] x y spacing = c"
| "drawTextWithSpacing host c (ch # chs) x y spacing =
     drawTextWithSpacing host (ctx_paint (FillText [ch] x y) c) chs
       (x + host_measureText host (font (drawState c)) [ch] + spacing) y spacing"

definition lineX :: "TextLayer \<Rightarrow> real \<Rightarrow> WrappedLine \<Rightarrow> real" where
  \<comment> \<open>the \<open>x\<close> of a line, by the alignment of the layer\<close>
  "lineX layer pad line =
     (if align layer = AlignCenter then layer_x layer + (layer_width layer - line_width line) / 2
      else if align layer = AlignRight then
        layer_x layer + layer_width layer - line_width line - pad
      else layer_x layer + pad)"

fun drawLines ::
  "Host \<Rightarrow> Canvas2D \<Rightarrow> TextLayer \<Rightarrow> real \<Rightarrow> real \<Rightarrow> real \<Rightarrow> nat \<Rightarrow> WrappedLine list \<Rightarrow> Canvas2D" where
  \<comment> \<open>the loop over the lines, from line \<open>i\<close> on\<close>
  "drawLines host c layer pad startY lineSpacing i [] = c"
| "drawLines host c layer pad startY lineSpacing i (line # rest) =
     (let x = lineX layer pad line;
          y = startY + real i * lineSpacing;
          c1 = (case letterSpacing layer of
                  None \<Rightarrow> ctx_paint (FillText (line_text line) x y) c
                | Some sp \<Rightarrow>
                    if sp \<noteq> 0 then drawTextWithSpacing host c (line_text line) x y sp
                    else ctx_paint (FillText (line_text line) x y) c)
      in drawLines host c1 layer pad startY lineSpacing (Suc i) rest)"

definition drawText ::
  "Host \<Rightarrow> Canvas2D \<Rightarrow> TextLayer \<Rightarrow> RenderVariables \<Rightarrow> (string \<rightharpoonup> string) \<Rightarrow> Completion" where
  "drawText host c layer variables colorVars =
     (let resolved = applyTextTransform host (resolveVariables (content layer) variables)
                       (textTransform layer)
      in if resolved = [] then Returns c
         else
           (let fontStr = getFontString host (fontSize layer) (fontWeight layer) (fontFamily layer);
                c1 = ctx_set (\<lambda>s. s\<lparr>font := fontStr,
                                      fillStyle := styleOf (resolveColor (text_color layer) colorVars),
                                      textBaseline := ''top''\<rparr>) c;
                pad = or_zero (padding layer);
                maxWidth = layer_width layer - pad * 2;
                lineSpacing = fontSize layer * or_number (lineHeight layer) 1.3
            in case wrapText (host_measureText host fontStr) resolved maxWidth (text_maxLines layer) of
                 Inl e \<Rightarrow> Throws e c1
               | Inr lines \<Rightarrow>
                   (let totalTextHeight = real (length lines) * lineSpacing;
                        startY = (if verticalAlign layer = Some Middle then
                                    layer_y layer + (layer_height layer - totalTextHeight) / 2
                                  else if verticalAlign layer = Some Bottom then
                                    layer_y layer + layer_height layer - totalTextHeight - pad
                                  else layer_y layer + pad)
                    in Returns (drawLines host c1 layer pad startY lineSpacing 0 lines))))"

definition layerOpacity :: "LayerDefinition \<Rightarrow> real option" where
  \<comment> \<open>\<open>layer.opacity\<close>, a field of every layer\<close>
  "layerOpacity layer =
     (case layer of Image l \<Rightarrow> opacity l | Text l \<Rightarrow> opacity l | Rect l \<Rightarrow> opacity l
      | Logo l \<Rightarrow> opacity l | AccentBar l \<Rightarrow> opacity l)"

definition layerVisible :: "LayerDefinition \<Rightarrow> bool option" where
  \<comment> \<open>\<open>layer.visible\<close>, a field of every layer\<close>
  "layerVisible layer =
     (case layer of Image l \<Rightarrow> visible l | Text l \<Rightarrow> visible l | Rect l \<Rightarrow> visible l
      | Logo l \<Rightarrow> visible l | AccentBar l \<Rightarrow> visible l)"

definition translucent :: "LayerDefinition \<Rightarrow> bool" where
  \<comment> \<open>\<open>layer.opacity !== undefined && layer.opacity < 1\<close>\<close>
  "translucent layer = (case layerOpacity layer of None \<Rightarrow> False | Some a \<Rightarrow> a < 1)"

definition drawVariant ::
  "Host \<Rightarrow> Canvas2D \<Rightarrow> LayerDefinition \<Rightarrow> RenderVariables \<Rightarrow> (string \<rightharpoonup> string) \<Rightarrow> Image list
     \<Rightarrow> Image option \<Rightarrow> Completion" where
  \<comment> \<open>the \<open>switch\<close> of \<open>drawLayer\<close>\<close>
  "drawVariant host c layer variables colorVars userImages logoImage =
     (case layer of
        Rect l \<Rightarrow> Returns (drawRect c l colorVars)
      | Image l \<Rightarrow> Returns (drawImage c l userImages)
      | Text l \<Rightarrow> drawText host c l variables colorVars
      | Logo l \<Rightarrow> Returns (drawLogo c l logoImage)
      | AccentBar l \<Rightarrow> Returns (drawAccentBar c l colorVars))"

definition drawLayer ::
  "Host \<Rightarrow> Canvas2D \<Rightarrow> LayerDefinition \<Rightarrow> RenderVariables \<Rightarrow> (string \<rightharpoonup> string) \<Rightarrow> Image list
     \<Rightarrow> Image option \<Rightarrow> Completion" where
  \<comment> \<open>no \<open>try\<close> and \<open>finally\<close> around the \<open>switch\<close>: an error leaves the function at once\<close>
  "drawLayer host c layer variables colorVars userImages logoImage =
     (let c1 = (case layerOpacity layer of
                  None \<Rightarrow> c
                | Some a \<Rightarrow>
                    if a < 1 then ctx_set (\<lambda>s. s\<lparr>globalAlpha := a\<rparr>) (ctx_save c) else c)
      in case drawVariant host c1 layer variables colorVars userImages logoImage of
           Throws e c2 \<Rightarrow> Throws e c2
         | Returns c2 \<Rightarrow> Returns (if translucent layer then ctx_restore c2 else c2))"

fun drawLayers ::
  "Host \<Rightarrow> Canvas2D \<Rightarrow> LayerDefinition list \<Rightarrow> RenderVariables \<Rightarrow> (string \<rightharpoonup> string) \<Rightarrow> Image list
     \<Rightarrow> Image option \<Rightarrow> Completion" where
  \<comment> \<open>the loop over the layers of the frame\<close>
  "drawLayers host c [] variables colorVars userImages logoImage = Returns c"
| "drawLayers host c (layer # rest) variables colorVars userImages logoImage =
     (if layerVisible layer = Some False then
        drawLayers host c rest variables colorVars userImages logoImage
      else
        (case drawLayer host c layer variables colorVars userImages logoImage of
           Throws e c1 \<Rightarrow> Throws e c1
         | Returns c1 \<Rightarrow> drawLayers host c1 rest variables colorVars userImages logoImage))"

record PngRenderContext =
  ctx_template :: TemplateDefinition
  ctx_variables :: RenderVariables
  ctx_userImages :: "Image list"
  ctx_logoImage :: "Image option"
  ctx_frameIndex :: "int option"

record PngBuffer =
  png_width :: real
  png_height :: real
  png_painted :: "(Paint \<times> DrawState) list"

definition renderPng :: "Host \<Rightarrow> PngRenderContext \<Rightarrow> error + PngBuffer" where
  \<comment> \<open>the buffer returned is the canvas: its size and what was painted on it\<close>
  "renderPng host ctx =
     (let tmpl = ctx_template ctx;
          frameIndex = (case ctx_frameIndex ctx of None \<Rightarrow> 0 | Some i \<Rightarrow> i)
      in case js_index (frames tmpl) frameIndex of
           None \<Rightarrow> Inl (Error ''Frame not found in template'')
         | Some frame \<Rightarrow>
             (let c = createCanvas;
                  colorVars = buildColorVariables (ctx_variables ctx);
                  c1 = drawBackground c frame (width tmpl) (height tmpl) colorVars
                         (ctx_userImages ctx)
              in case drawLayers host c1 (layers frame) (ctx_variables ctx) colorVars
                        (ctx_userImages ctx) (ctx_logoImage ctx) of
                   Throws e c2 \<Rightarrow> Inl e
                 | Returns c2 \<Rightarrow>
                     Inr \<lparr>png_width = width tmpl, png_height = height tmpl,
                          png_painted = painted c2\<rparr>))"

definition alphaStable :: "Canvas2D \<Rightarrow> Canvas2D \<Rightarrow> bool" where
  \<comment> \<open>from the first context to the second the stack of saved states and the alpha are the
      same, and what was painted in between was painted under that alpha\<close>
  "alphaStable c c' =
     (saved c' = saved c
      \<and> globalAlpha (drawState c') = globalAlpha (drawState c)
      \<and> (\<exists>new. painted c' = painted c @ new
            \<and> (\<forall>e \<in> set new. globalAlpha (snd e) = globalAlpha (drawState c))))"


definition textCanThrow :: "LayerDefinition \<Rightarrow> bool" where
  \<comment> \<open>a text layer with a negative \<open>maxLines\<close>\<close>
  "textCanThrow layer =
     (case layer of
        Text l \<Rightarrow> (case text_maxLines l of None \<Rightarrow> False | Some m \<Rightarrow> m < 0)
      | _ \<Rightarrow> False)"

function showNat :: "nat \<Rightarrow> string" where
  \<comment> \<open>the decimal digits of a natural number\<close>
  "showNat n =
     (if n < 10 then [''0123456789'' ! n]
      else showNat (n div 10) @ [''0123456789'' ! (n mod 10)])"
  by pat_completeness auto
termination
  by (relation "measure id") auto

definition sampleHost :: Host where
  \<comment> \<open>a sample host: ten pixels a character in every font, the case mappings of the
      letters a to z, and numbers printed as their integer part\<close>
  "sampleHost =
     \<lparr>host_measureText = (\<lambda>f s. 10 * real (length s)),
      host_toUpperCase = map (\<lambda>ch. if 97 \<le> (of_char ch :: nat) \<and> (of_char ch :: nat) \<le> 122
                               then char_of (of_char ch - 32 :: nat) else ch),
      host_toLowerCase = map (\<lambda>ch. if 65 \<le> (of_char ch :: nat) \<and> (of_char ch :: nat) \<le> 90
                               then char_of (of_char ch + 32 :: nat) else ch),
      host_numberToString = (\<lambda>r. showNat (nat \<lfloor>r\<rfloor>))\<rparr>"

definition sampleVariables :: RenderVariables where
  "sampleVariables =
     \<lparr>var_title = ''Sale'', var_subtitle = ''This week only'', var_body = ''Call us'',
      var_phone = ''555 1234'', service_areas = ''North and South'',
      primary_colour = ''#235BAA'', secondary_colour = [], logo_url = [],
      user_images = [''https://example.com/a.png''], company_name = ''Sample'',
      website = None\<rparr>"

definition sampleText :: "real option \<Rightarrow> int option \<Rightarrow> TextLayer" where
  \<comment> \<open>a text layer with the content \<open>{{title}}\<close>, the given opacity and \<open>maxLines\<close>\<close>
  "sampleText a m =
     \<lparr>layer_x = 40, layer_y = 40, layer_width = 400, layer_height = 200, anchor = None,
      opacity = a, borderRadius = None, visible = None,
      content = ''{{title}}'', fontFamily = ''Inter'', fontSize = 48, fontWeight = Bold,
      text_color = ''#FFFFFF'', align = AlignLeft, verticalAlign = None, text_maxLines = m,
      lineHeight = None, textTransform = None, padding = None, letterSpacing = None\<rparr>"

definition sampleImageLayer :: "real option \<Rightarrow> int \<Rightarrow> ImageLayer" where
  \<comment> \<open>an image layer for the image at the given index, with the given opacity\<close>
  "sampleImageLayer a i =
     \<lparr>layer_x = 40, layer_y = 40, layer_width = 400, layer_height = 200, anchor = None,
      opacity = a, borderRadius = None, visible = None,
      image_index = i, image_fit = Cover, shadow = None\<rparr>"

definition sampleBar :: "real option \<Rightarrow> AccentBarLayer" where
  \<comment> \<open>an accent bar in the primary colour, with the given opacity\<close>
  "sampleBar a =
     \<lparr>layer_x = 0, layer_y = 1000, layer_width = 1080, layer_height = 80, anchor = None,
      opacity = a, borderRadius = None, visible = None,
      bar_color = ''{{primary_colour}}''\<rparr>"




section \<open>The video assembler (engine/mp4-renderer.ts)\<close>

text \<open>
  A stage of the filter graph is the record of what the template string of the source puts
  in a row: the two input labels, the transition, its duration, the offset, whether the
  pixel format suffix \<open>,format=yuv420p\<close> follows, and the output label. \<open>[i:v]\<close> is
  \<open>RawFrame i\<close>, \<open>[vi]\<close> is \<open>Chained i\<close>, \<open>[v]\<close> is \<open>Final\<close>. The duration and the
  offset are the doubles the source prints into the string.
\<close>

datatype Label = RawFrame nat | Chained nat | Final

record XfadeStage =
  inputA :: Label
  inputB :: Label
  xfade_transition :: string
  xfade_duration :: double
  xfade_offset :: double
  formatSuffix :: bool
  outputLabel :: Label

record XfadeOptions =
  framePaths :: "string list"
  outputPath :: string
  frameDurations :: "double list"
  transitionType :: string
  transitionDuration :: double
  xfade_fps :: real
  xfade_width :: real
  xfade_height :: real

fun xfadeChain ::
  "nat \<Rightarrow> double list \<Rightarrow> string \<Rightarrow> double \<Rightarrow> nat list \<Rightarrow> double \<Rightarrow> XfadeStage list" where
  \<comment> \<open>the loop \<open>for (let i = 0; i < n - 1; i++)\<close> over its indices; the state is
      \<open>cumulativeOffset\<close>\<close>
  "xfadeChain n durations ttype tdur [] cumulativeOffset = []"
| "xfadeChain n durations ttype tdur (i # rest) cumulativeOffset =
     (let inA = (if i = 0 then RawFrame 0 else Chained i);
          inB = RawFrame (i + 1);
          out = (if int i = int n - 2 then Final else Chained (i + 1));
          offset = (if i = 0 then double_sub (numberOf (js_index durations 0)) tdur
                    else double_add cumulativeOffset
                           (double_sub (numberOf (js_index durations (int i))) tdur))
      in \<lparr>inputA = inA, inputB = inB, xfade_transition = ttype, xfade_duration = tdur,
          xfade_offset = offset, formatSuffix = (int i = int n - 2), outputLabel = out\<rparr>
         # xfadeChain n durations ttype tdur rest offset)"

definition filterParts :: "XfadeOptions \<Rightarrow> XfadeStage list" where
  \<comment> \<open>\<open>filterParts\<close> as \<open>buildMp4WithXfade\<close> builds it\<close>
  "filterParts opts =
     (let n = length (framePaths opts) in
      if n = 2 then
        [\<lparr>inputA = RawFrame 0, inputB = RawFrame 1, xfade_transition = transitionType opts,
          xfade_duration = transitionDuration opts,
          xfade_offset = double_sub (numberOf (js_index (frameDurations opts) 0))
                           (transitionDuration opts),
          formatSuffix = True, outputLabel = Final\<rparr>]
      else
        xfadeChain n (frameDurations opts) (transitionType opts) (transitionDuration opts)
          [0..<n - 1] (Finite 0))"

record FfmpegInput =
  input_path :: string
  input_seconds :: "double option"
  input_framerate :: real

record FfmpegCommand =
  cmd_inputs :: "FfmpegInput list"
  cmd_filter :: "XfadeStage list"
  cmd_outputOptions :: "string list"
  cmd_output :: string

definition ffmpegInputs :: "XfadeOptions \<Rightarrow> FfmpegInput list" where
  \<comment> \<open>each frame, looped for \<open>frameDurations[i]\<close> seconds at \<open>fps\<close>\<close>
  "ffmpegInputs opts =
     map (\<lambda>i. \<lparr>input_path = framePaths opts ! i,
                input_seconds = js_index (frameDurations opts) (int i),
                input_framerate = xfade_fps opts\<rparr>)
       [0..<length (framePaths opts)]"

definition ffmpegCommand :: "Host \<Rightarrow> XfadeOptions \<Rightarrow> FfmpegCommand" where
  "ffmpegCommand host opts =
     \<lparr>cmd_inputs = ffmpegInputs opts, cmd_filter = filterParts opts,
      cmd_outputOptions =
        [''-map'', ''[v]'', ''-c:v'', ''libx264'', ''-preset'', ''fast'', ''-crf'', ''23'',
         ''-pix_fmt'', ''yuv420p'', ''-movflags'', ''+faststart'', ''-r'',
         host_numberToString host (xfade_fps opts)],
      cmd_output = outputPath opts\<rparr>"

text \<open>
  The encoder is a process of the host: \<open>runEncoder\<close> gives the message of its
  \<open>error\<close> event, or the bytes it has written to the output file. The temporary directory
  is the one \<open>mkdtempSync\<close> has made. The calls to the file system are taken to succeed.
  What \<open>renderMp4\<close> does to the world is the list of its effects, in their order.
\<close>

record Encoder =
  tmpDir :: string
  runEncoder :: "FfmpegCommand \<Rightarrow> string + nat list"

definition buildMp4WithXfade :: "Host \<Rightarrow> Encoder \<Rightarrow> XfadeOptions \<Rightarrow> error + nat list" where
  \<comment> \<open>the promise: rejected with the wrapped error, or resolved, the bytes then in the file\<close>
  "buildMp4WithXfade host enc opts =
     (case runEncoder enc (ffmpegCommand host opts) of
        Inl msg \<Rightarrow> Inl (Error (''FFmpeg error: '' @ msg))
      | Inr bytes \<Rightarrow> Inr bytes)"

datatype Effect =
  MakeTmpDir
| RenderFrame nat
| WriteFile string
| RunEncoder FfmpegCommand
| ReadOutput
| RemoveTmpDir

record Mp4RenderContext =
  mp4_template :: TemplateDefinition
  mp4_variables :: RenderVariables
  mp4_userImages :: "Image list"
  mp4_logoImage :: "Image option"

definition padStart3 :: "string \<Rightarrow> string" where
  \<comment> \<open>\<open>s.padStart(3, '0')\<close>\<close>
  "padStart3 s = replicate (3 - length s) CHR ''0'' @ s"

definition framePath :: "Encoder \<Rightarrow> nat \<Rightarrow> string" where
  "framePath enc i = tmpDir enc @ ''/frame_'' @ padStart3 (showNat i) @ ''.png''"

fun renderFrames ::
  "Host \<Rightarrow> Encoder \<Rightarrow> Mp4RenderContext \<Rightarrow> nat list \<Rightarrow> Effect list \<times> (error + string list)" where
  \<comment> \<open>the loop over the frame indices: the effects, and the paths written or the error\<close>
  "renderFrames host enc ctx [] = ([], Inr [])"
| "renderFrames host enc ctx (i # rest) =
     (case renderPng host
             \<lparr>ctx_template = mp4_template ctx, ctx_variables = mp4_variables ctx,
              ctx_userImages = mp4_userImages ctx, ctx_logoImage = mp4_logoImage ctx,
              ctx_frameIndex = Some (int i)\<rparr> of
        Inl e \<Rightarrow> ([RenderFrame i], Inl e)
      | Inr pngBuffer \<Rightarrow>
          (case renderFrames host enc ctx rest of
             (effects, r) \<Rightarrow>
               ([RenderFrame i, WriteFile (framePath enc i)] @ effects,
                (case r of Inl e \<Rightarrow> Inl e | Inr paths \<Rightarrow> Inr (framePath enc i # paths)))))"

definition mapTransitionType :: "TransitionType option \<Rightarrow> string" where
  \<comment> \<open>\<open>mapTransitionType(template.transition?.type || 'fade')\<close>\<close>
  "mapTransitionType t =
     (case t of
        None \<Rightarrow> ''fade''
      | Some Fade \<Rightarrow> ''fade''
      | Some Crossfade \<Rightarrow> ''fade''
      | Some SlideLeft \<Rightarrow> ''slideleft''
      | Some SlideRight \<Rightarrow> ''slideright''
      | Some Zoom \<Rightarrow> ''smoothup'')"

definition frameDurationSec :: "TemplateDefinition \<Rightarrow> double list" where
  \<comment> \<open>\<open>template.frames.map((f) => (f.durationMs || 3000) / 1000)\<close>\<close>
  "frameDurationSec tmpl =
     map (\<lambda>f. divideBy (or_double (durationMs f) (Finite 3000)) 1000) (frames tmpl)"

definition transitionDurationSec :: "TemplateDefinition \<Rightarrow> double" where
  \<comment> \<open>\<open>(template.transition?.durationMs || 800) / 1000\<close>\<close>
  "transitionDurationSec tmpl =
     divideBy (or_double (map_option transition_durationMs (transition tmpl)) (Finite 800)) 1000"

definition xfadeOptions :: "Encoder \<Rightarrow> TemplateDefinition \<Rightarrow> string list \<Rightarrow> XfadeOptions" where
  \<comment> \<open>the options \<open>renderMp4\<close> passes to \<open>buildMp4WithXfade\<close>\<close>
  "xfadeOptions enc tmpl paths =
     \<lparr>framePaths = paths, outputPath = tmpDir enc @ ''/output.mp4'',
      frameDurations = frameDurationSec tmpl,
      transitionType = mapTransitionType (map_option transition_type (transition tmpl)),
      transitionDuration = transitionDurationSec tmpl,
      xfade_fps = or_number (fps tmpl) 30,
      xfade_width = width tmpl, xfade_height = height tmpl\<rparr>"

definition renderMp4 ::
  "Host \<Rightarrow> Encoder \<Rightarrow> Mp4RenderContext \<Rightarrow> Effect list \<times> (error + nat list)" where
  \<comment> \<open>\<open>finally\<close>: the temporary directory is removed on every way out of the \<open>try\<close>\<close>
  "renderMp4 host enc ctx =
     (let tmpl = mp4_template ctx; frameCount = length (frames tmpl) in
      if frameCount < 2 then ([], Inl (Error ''MP4 templates require at least 2 frames''))
      else
        (case renderFrames host enc ctx [0..<frameCount] of
           (effects, Inl e) \<Rightarrow> ([MakeTmpDir] @ effects @ [RemoveTmpDir], Inl e)
         | (effects, Inr paths) \<Rightarrow>
             (let opts = xfadeOptions enc tmpl paths in
              case buildMp4WithXfade host enc opts of
                Inl e \<Rightarrow>
                  ([MakeTmpDir] @ effects @ [RunEncoder (ffmpegCommand host opts), RemoveTmpDir],
                   Inl e)
              | Inr bytes \<Rightarrow>
                  ([MakeTmpDir] @ effects
                     @ [RunEncoder (ffmpegCommand host opts), ReadOutput, RemoveTmpDir],
                   Inr bytes))))"

definition holdFrame :: "real option \<Rightarrow> FrameDefinition" where
  \<comment> \<open>an empty frame on a solid background, held for the given time in milliseconds\<close>
  "holdFrame ms =
     \<lparr>durationMs = map_option Finite ms, background = Solid ''#000000'', layers = []\<rparr>"

definition sampleVideo :: "real option list \<Rightarrow> Transition option \<Rightarrow> TemplateDefinition" where
  \<comment> \<open>a video template of empty frames with the given hold times and transition\<close>
  "sampleVideo holds tr =
     (sampleTemplate ''promo'' MP4 0 (map holdFrame holds))\<lparr>transition := tr\<rparr>"

definition sampleEncoder :: Encoder where
  \<comment> \<open>an encoder that succeeds, writing one byte: the number of its inputs\<close>
  "sampleEncoder =
     \<lparr>tmpDir = ''/tmp/render-mp4-a'', runEncoder = (\<lambda>cmd. Inr [length (cmd_inputs cmd)])\<rparr>"

definition sampleMp4Context :: "real option list \<Rightarrow> Mp4RenderContext" where
  "sampleMp4Context holds =
     \<lparr>mp4_template = sampleVideo holds None, mp4_variables = sampleVariables,
      mp4_userImages = [], mp4_logoImage = None\<rparr>"

definition claimedOffset :: "TemplateDefinition \<Rightarrow> nat \<Rightarrow> real" where
  \<comment> \<open>the offset of stage \<open>i\<close> in the words of the specification, in seconds: the hold times
      of the frames 0 to \<open>i\<close>, each the frame's own duration or the default where it has
      none, less \<open>i + 1\<close> times the transition time, the template's own or the default\<close>
  "claimedOffset tmpl i =
     sum_list (map (\<lambda>f. case durationMs f of None \<Rightarrow> 3 | Some ms \<Rightarrow> finiteValue ms / 1000)
                 (take (i + 1) (frames tmpl)))
     - real (i + 1) * (case transition tmpl of None \<Rightarrow> 4 / 5
                       | Some tr \<Rightarrow> finiteValue (transition_durationMs tr) / 1000)"

section \<open>Properties\<close>

subsection \<open>Colour resolution\<close>








subsection \<open>Round-robin selection\<close>

lemma js_rem_nonneg: "0 \<le> a \<Longrightarrow> js_rem a b = a mod \<bar>b\<bar>"
  by (cases "a = 0") (simp_all add: js_rem_def sgn_if)

lemma bitLength_less: "n < 2 ^ k \<Longrightarrow> bitLength n \<le> k"
proof (induction k arbitrary: n)
  case 0
  then show ?case by (simp add: bitLength.simps)
next
  case (Suc k)
  show ?case
  proof (cases "n = 0")
    case True
    then show ?thesis by (simp add: bitLength.simps)
  next
    case False
    have "n div 2 < 2 ^ k" using Suc.prems by simp
    then have "bitLength (n div 2) \<le> k" by (rule Suc.IH)
    then show ?thesis using False by (subst bitLength.simps) simp
  qed
qed

lemma bitLength_power: "bitLength (2 ^ k) = Suc k"
proof (induction k)
  case 0
  then show ?case by (simp add: bitLength.simps)
next
  case (Suc k)
  have "bitLength (2 ^ Suc k) = Suc (bitLength (2 ^ Suc k div 2))"
    by (subst bitLength.simps) simp
  then show ?case using Suc.IH by simp
qed

lemma nearestDouble_exact:
  assumes "\<bar>x\<bar> \<le> 2 ^ 53"
  shows "nearestDouble x = x"
proof (cases "\<bar>x\<bar> = 2 ^ 53")
  case True
  have n: "nat \<bar>x\<bar> = 2 ^ 53" using True by (simp add: nat_eq_iff)
  have b: "bitLength (nat \<bar>x\<bar>) = 54" by (simp only: n bitLength_power)
  have s: "sgn x * 2 ^ 53 = x" using True by (cases "0 \<le> x") (simp_all add: sgn_if)
  show ?thesis unfolding nearestDouble_def Let_def b using True s by simp
next
  case False
  then have "nat \<bar>x\<bar> < 2 ^ 53" using assms by (simp add: nat_less_iff)
  then have "bitLength (nat \<bar>x\<bar>) \<le> 53" by (rule bitLength_less)
  then show ?thesis by (simp add: nearestDouble_def Let_def)
qed

lemma selectFromPool_step:
  assumes "pool \<noteq> []" "- 1 \<le> formatIndex state format" "formatIndex state format \<le> 2 ^ 53 - 1"
  shows "selectFromPool pool state format =
     Some \<lparr>selected = Some (pool ! nat ((formatIndex state format + 1) mod int (length pool))),
           updatedState =
             (if format = PNG
              then state\<lparr>png := \<lparr>lastIndex = (formatIndex state format + 1) mod int (length pool)\<rparr>\<rparr>
              else state\<lparr>mp4 := \<lparr>lastIndex = (formatIndex state format + 1) mod int (length pool)\<rparr>\<rparr>)\<rparr>"
proof -
  have n: "0 < int (length pool)" using assms(1) by simp
  have "\<bar>formatIndex state format + 1\<bar> \<le> 2 ^ 53" using assms(2,3) by simp
  then have e: "nearestDouble (formatIndex state format + 1) = formatIndex state format + 1"
    by (rule nearestDouble_exact)
  have r: "js_rem (nearestDouble (formatIndex state format + 1)) (int (length pool))
             = (formatIndex state format + 1) mod int (length pool)"
    using assms(2) by (simp add: e js_rem_nonneg)
  have b: "0 \<le> (formatIndex state format + 1) mod int (length pool)"
          "(formatIndex state format + 1) mod int (length pool) < int (length pool)"
    using n by simp_all
  show ?thesis
  proof (cases "format = PNG")
    case True
    then show ?thesis
      using assms(1) r b by (simp add: selectFromPool_def Let_def js_index_def formatIndex_def)
  next
    case False
    then show ?thesis
      using assms(1) r b by (simp add: selectFromPool_def Let_def js_index_def formatIndex_def)
  qed
qed

lemma formatIndex_updated:
  "formatIndex (if format = PNG then state\<lparr>png := \<lparr>lastIndex = i\<rparr>\<rparr>
                else state\<lparr>mp4 := \<lparr>lastIndex = i\<rparr>\<rparr>) format = i"
  by (simp add: formatIndex_def)

lemma selectRounds_eq:
  assumes "pool \<noteq> []" "length pool < 2 ^ 32"
  shows "- 1 \<le> formatIndex state format \<Longrightarrow> formatIndex state format \<le> 2 ^ 53 - 1 \<Longrightarrow>
     selectRounds k pool state format =
       map (\<lambda>j. (formatIndex state format + 1 + int j) mod int (length pool)) [0..<k]"
proof (induction k arbitrary: state)
  case 0
  then show ?case by simp
next
  case (Suc k)
  let ?n = "int (length pool)"
  let ?i = "(formatIndex state format + 1) mod ?n"
  let ?st = "(if format = PNG then state\<lparr>png := \<lparr>lastIndex = ?i\<rparr>\<rparr>
              else state\<lparr>mp4 := \<lparr>lastIndex = ?i\<rparr>\<rparr>)"
  have n: "0 < ?n" using assms(1) by simp
  have fi: "formatIndex ?st format = ?i" by (rule formatIndex_updated)
  have "0 \<le> ?i" using n by simp
  then have nonneg: "- 1 \<le> formatIndex ?st format" by (simp only: fi)
  have "?i < ?n" using n by simp
  moreover have "?n < 2 ^ 32" using assms(2) by (simp add: of_nat_less_numeral_power_cancel_iff)
  ultimately have "?i \<le> 2 ^ 53 - 1" by simp
  then have safe: "formatIndex ?st format \<le> 2 ^ 53 - 1" by (simp only: fi)
  have rest: "selectRounds k pool ?st format = map (\<lambda>j. (?i + 1 + int j) mod ?n) [0..<k]"
    using Suc.IH [OF nonneg safe] by (simp only: fi)
  have shift: "(?i + 1 + int j) mod ?n = (formatIndex state format + 1 + int (Suc j)) mod ?n" for j
    using mod_add_left_eq [of "formatIndex state format + 1" ?n "1 + int j"]
    by (simp add: algebra_simps)
  have "selectRounds (Suc k) pool state format = ?i # selectRounds k pool ?st format"
    using selectFromPool_step [OF assms(1) Suc.prems] fi by simp
  also have "\<dots> = ?i # map (\<lambda>j. (formatIndex state format + 1 + int (Suc j)) mod ?n) [0..<k]"
    by (simp only: rest shift)
  also have "\<dots> = map (\<lambda>j. (formatIndex state format + 1 + int j) mod ?n) [0..<Suc k]"
    by (simp only: upt_conv_Cons [of 0 "Suc k"] map_Suc_upt [symmetric] list.map map_map o_def) simp
  finally show ?case .
qed

lemma rotation_set:
  assumes "0 < n"
  shows "set (map (\<lambda>j. (c + int j) mod int n) [0..<n]) = {0..<int n}"
proof
  show "set (map (\<lambda>j. (c + int j) mod int n) [0..<n]) \<subseteq> {0..<int n}"
    using assms by auto
  show "{0..<int n} \<subseteq> set (map (\<lambda>j. (c + int j) mod int n) [0..<n])"
  proof
    fix v assume v: "v \<in> {0..<int n}"
    let ?j = "nat ((v - c) mod int n)"
    have jn: "?j < n" using assms by (simp add: nat_less_iff)
    have "(c + int ?j) mod int n = v mod int n"
      using assms by (simp add: mod_simps)
    also have "\<dots> = v" using v by simp
    finally have "(c + int ?j) mod int n = v" .
    with jn show "v \<in> set (map (\<lambda>j. (c + int j) mod int n) [0..<n])"
      by (auto simp: image_iff intro!: bexI [of _ ?j])
  qed
qed

lemma rotation_distinct:
  assumes "0 < n"
  shows "distinct (map (\<lambda>j. (c + int j) mod int n) [0..<n])"
proof (rule card_distinct)
  show "card (set (map (\<lambda>j. (c + int j) mod int n) [0..<n])) = length (map (\<lambda>j. (c + int j) mod int n) [0..<n])"
    by (simp only: rotation_set [OF assms]) simp
qed

text \<open>
  C6 (as amended). An empty pool gives no selection. For a non-empty pool and a state whose
  \<open>lastIndex\<close> for the requested format is an integer from \<open>-1\<close> to \<open>2\<^sup>5\<^sup>3 - 1\<close>, the
  largest integer whose successor is exact in double precision, \<open>selectFromPool\<close> returns
  the pool entry at index \<open>(lastIndex + 1) mod pool.length\<close> and a state whose \<open>lastIndex\<close>
  for that format is this index, the other format's state unchanged; and \<open>pool.length\<close>
  successive calls, each fed the state the previous one returned, choose every index of
  the pool exactly once. The pool is an array: its length is below \<open>2\<^sup>3\<^sup>2\<close>.
\<close>

theorem selectFromPool_round_robin:
  "selectFromPool [] state format = None \<and>
   (pool \<noteq> [] \<and> length pool < 2 ^ 32
    \<and> - 1 \<le> formatIndex state format \<and> formatIndex state format \<le> 2 ^ 53 - 1 \<longrightarrow>
      (\<exists>r. selectFromPool pool state format = Some r
         \<and> formatIndex (updatedState r) format = (formatIndex state format + 1) mod int (length pool)
         \<and> selected r = Some (pool ! nat ((formatIndex state format + 1) mod int (length pool)))
         \<and> (if format = PNG then mp4 (updatedState r) = mp4 state
             else png (updatedState r) = png state))
      \<and> selectRounds (length pool) pool state format =
          map (\<lambda>j. (formatIndex state format + 1 + int j) mod int (length pool)) [0..<length pool]
      \<and> distinct (selectRounds (length pool) pool state format)
      \<and> set (selectRounds (length pool) pool state format) = {0..<int (length pool)})"
proof (intro conjI impI)
  show "selectFromPool [] state format = None"
    by (simp add: selectFromPool_def)
next
  assume a: "pool \<noteq> [] \<and> length pool < 2 ^ 32
    \<and> - 1 \<le> formatIndex state format \<and> formatIndex state format \<le> 2 ^ 53 - 1"
  then have p: "pool \<noteq> []" and a32: "length pool < 2 ^ 32"
    and l: "- 1 \<le> formatIndex state format" and u: "formatIndex state format \<le> 2 ^ 53 - 1"
    by simp_all
  have n: "0 < length pool" using p by simp
  show "\<exists>r. selectFromPool pool state format = Some r
         \<and> formatIndex (updatedState r) format = (formatIndex state format + 1) mod int (length pool)
         \<and> selected r = Some (pool ! nat ((formatIndex state format + 1) mod int (length pool)))
         \<and> (if format = PNG then mp4 (updatedState r) = mp4 state
             else png (updatedState r) = png state)"
    using selectFromPool_step [OF p l u] by (simp add: formatIndex_def)
  show r: "selectRounds (length pool) pool state format =
          map (\<lambda>j. (formatIndex state format + 1 + int j) mod int (length pool)) [0..<length pool]"
    by (rule selectRounds_eq [OF p a32 l u])
  show "distinct (selectRounds (length pool) pool state format)"
    by (simp only: r rotation_distinct [OF n])
  show "set (selectRounds (length pool) pool state format) = {0..<int (length pool)}"
    by (simp only: r rotation_set [OF n])
qed

theorem selectFromPool_round_robin_witness:
  "selectFromPool [] (initialState 0) PNG = None
   \<and> (\<exists>r. selectFromPool samplePool (initialState 0) PNG = Some r
         \<and> formatIndex (updatedState r) PNG = 1
         \<and> selected r = Some (sampleMeta ''recB'' PNG 1 1 []))
   \<and> selectRounds 3 samplePool (initialState 0) PNG = [1, 2, 0]
   \<and> selectRounds 3 samplePool (initialState (2 ^ 53 - 1)) PNG = [2, 0, 1]"
proof -
  have len: "length samplePool = 3" by (simp add: samplePool_def)
  have fi: "formatIndex (initialState 0) PNG = 0" by (simp add: formatIndex_def initialState_def)
  have fj: "formatIndex (initialState i) PNG = i" for i
    by (simp add: formatIndex_def initialState_def)
  have upt3: "[0..<3] = [0, 1, 2]" by (simp add: upt_rec)
  have nth1: "samplePool ! nat 1 = sampleMeta ''recB'' PNG 1 1 []" by (simp add: samplePool_def)
  have ne: "samplePool \<noteq> []" by (simp add: samplePool_def)
  have first: "selectFromPool [] (initialState 0) PNG = None
   \<and> (\<exists>r. selectFromPool samplePool (initialState 0) PNG = Some r
         \<and> formatIndex (updatedState r) PNG = 1
         \<and> selected r = Some (sampleMeta ''recB'' PNG 1 1 []))
   \<and> selectRounds 3 samplePool (initialState 0) PNG = [1, 2, 0]"
    using selectFromPool_round_robin [of "initialState 0" PNG samplePool] ne nth1
    by (auto simp: len fi upt3)
  have second: "selectRounds 3 samplePool (initialState (2 ^ 53 - 1)) PNG = [2, 0, 1]"
    using selectFromPool_round_robin [of "initialState (2 ^ 53 - 1)" PNG samplePool] ne
    by (simp add: len fj upt3)
  show ?thesis using first second by simp
qed

text \<open>
  The claim as stated covers every rotation state. The remainder \<open>%\<close> takes the sign of
  its dividend: from \<open>lastIndex = -3\<close> on a pool of three the next index is \<open>-2\<close>, no
  entry of the pool is selected, and \<open>-2\<close> is stored as the new \<open>lastIndex\<close>. And the
  sum \<open>lastIndex + 1\<close> is a sum of doubles: from \<open>lastIndex = 2\<^sup>5\<^sup>3\<close> it is \<open>2\<^sup>5\<^sup>3\<close>
  again, so that the index chosen on a pool of three is 2, where
  \<open>(2\<^sup>5\<^sup>3 + 1) mod 3\<close> is 0.
\<close>

theorem selectFromPool_state_counterexample:
  "selectFromPool samplePool (initialState (- 3)) PNG =
     Some \<lparr>selected = None, updatedState = initialState (- 2)\<rparr>
   \<and> selectFromPool samplePool (initialState (2 ^ 53)) PNG =
     Some \<lparr>selected = Some (sampleMeta ''recC'' PNG 1 1 []), updatedState = initialState 2\<rparr>
   \<and> (2 ^ 53 + 1) mod 3 = (0 :: int)"
proof -
  have b: "bitLength 9007199254740993 = 54" by (simp add: bitLength.simps)
  have d: "nearestDouble (2 ^ 53 + 1) = 2 ^ 53" by (simp add: nearestDouble_def b Let_def)
  have neg: "nearestDouble (- 3 + 1) = - 2"
    using nearestDouble_exact [of "- 2"] by simp
  have one: "selectFromPool samplePool (initialState (- 3)) PNG =
     Some \<lparr>selected = None, updatedState = initialState (- 2)\<rparr>"
    using neg by (simp add: selectFromPool_def samplePool_def initialState_def js_rem_def js_index_def)
  have two: "selectFromPool samplePool (initialState (2 ^ 53)) PNG =
     Some \<lparr>selected = Some (sampleMeta ''recC'' PNG 1 1 []), updatedState = initialState 2\<rparr>"
    using d by (simp add: selectFromPool_def samplePool_def initialState_def js_rem_def js_index_def)
  show ?thesis using one two by simp
qed

subsection \<open>The rotation pool\<close>

lemma collectCandidates_filter:
  "collectCandidates format n cats ms = filter (eligible format n cats) ms"
  by (induction ms) (auto simp: eligible_def Let_def list_ex_iff split: option.splits)

lemma mset_insertSorted: "mset (insertSorted cmp a xs) = add_mset a (mset xs)"
  by (induction xs) auto

lemma mset_sortWith: "mset (sortWith cmp xs) = mset xs"
  by (induction xs) (auto simp: mset_insertSorted)

lemma set_insertSorted: "set (insertSorted cmp a xs) = insert a (set xs)"
  by (induction xs) auto

lemma sorted_insertSorted:
  assumes "consistentComparator cmp" "sorted_wrt (\<lambda>a b. cmp a b \<le> 0) xs"
  shows "sorted_wrt (\<lambda>a b. cmp a b \<le> 0) (insertSorted cmp a xs)"
  using assms(2)
proof (induction xs)
  case Nil
  then show ?case by simp
next
  case (Cons b bs)
  have tot: "cmp a b \<le> 0 \<or> cmp b a \<le> 0"
    using assms(1) unfolding consistentComparator_def by blast
  have tr: "\<And>x y z. cmp x y \<le> 0 \<Longrightarrow> cmp y z \<le> 0 \<Longrightarrow> cmp x z \<le> 0"
    using assms(1) unfolding consistentComparator_def by blast
  show ?case
  proof (cases "cmp a b \<le> 0")
    case True
    from Cons.prems have bx: "\<forall>x\<in>set bs. cmp b x \<le> 0" by simp
    have "\<forall>x\<in>set bs. cmp a x \<le> 0" using tr [OF True] bx by blast
    then show ?thesis using True Cons.prems by simp
  next
    case False
    then have ba: "cmp b a \<le> 0" using tot by simp
    from Cons.prems have bx: "\<forall>x\<in>set bs. cmp b x \<le> 0" and sb: "sorted_wrt (\<lambda>a b. cmp a b \<le> 0) bs"
      by simp_all
    have "sorted_wrt (\<lambda>a b. cmp a b \<le> 0) (insertSorted cmp a bs)" using Cons.IH [OF sb] .
    then show ?thesis using False ba bx by (simp add: set_insertSorted)
  qed
qed

lemma sorted_sortWith:
  "consistentComparator cmp \<Longrightarrow> sorted_wrt (\<lambda>a b. cmp a b \<le> 0) (sortWith cmp xs)"
  by (induction xs) (auto intro: sorted_insertSorted)

lemma consistent_on_key:
  "consistentComparator cmp \<Longrightarrow> consistentComparator (\<lambda>a b. cmp (f a) (f b))"
  unfolding consistentComparator_def by blast

lemma expandByWeight_concat:
  "expandByWeight cs = concat (map (\<lambda>c. replicate (nat (poolCopies c)) c) cs)"
  by (induction cs) auto

lemma poolCopies_bounds: "1 \<le> poolCopies c \<and> poolCopies c \<le> 10"
  by (simp add: poolCopies_def)

lemma set_expandByWeight: "set (expandByWeight cs) = set cs"
proof (induction cs)
  case Nil
  then show ?case by simp
next
  case (Cons c cs)
  have "0 < nat (poolCopies c)" using poolCopies_bounds [of c] by simp
  then have "set (replicate (nat (poolCopies c)) c) = {c}" by simp
  with Cons show ?case by simp
qed

lemma count_replicate: "count_list (replicate k c) m = (if m = c then k else 0)"
  by (induction k) auto

lemma count_expandByWeight:
  "distinct cs \<Longrightarrow> m \<in> set cs \<Longrightarrow> count_list (expandByWeight cs) m = nat (poolCopies m)"
proof (induction cs)
  case Nil
  then show ?case by simp
next
  case (Cons c cs)
  show ?case
  proof (cases "m = c")
    case True
    then have "m \<notin> set (expandByWeight cs)" using Cons.prems by (simp add: set_expandByWeight)
    then have "count_list (expandByWeight cs) m = 0" by (simp add: count_list_0_iff)
    with True show ?thesis by (simp add: count_replicate)
  next
    case False
    then show ?thesis using Cons by (simp add: count_replicate)
  qed
qed

lemma poolCopies_3: "rotationWeight m = 3 \<Longrightarrow> poolCopies m = 3"
  by (simp add: poolCopies_def mathRound_def)

lemma poolCopies_15: "rotationWeight m = 15 \<Longrightarrow> poolCopies m = 10"
  by (simp add: poolCopies_def mathRound_def)


lemma codeUnitCompare_total: "codeUnitCompare a b \<le> 0 \<or> codeUnitCompare b a \<le> 0"
  by (induction a b rule: codeUnitCompare.induct) auto

lemma codeUnitCompare_trans:
  "codeUnitCompare a b \<le> 0 \<Longrightarrow> codeUnitCompare b c \<le> 0 \<Longrightarrow> codeUnitCompare a c \<le> 0"
proof (induction a c arbitrary: b rule: codeUnitCompare.induct)
  case 1
  then show ?case by simp
next
  case (2 y ys)
  then show ?case by simp
next
  case (3 x xs)
  then show ?case by (cases b) (auto split: if_splits)
next
  case (4 x xs y ys)
  show ?case
  proof (cases b)
    case Nil
    with 4 show ?thesis by simp
  next
    case (Cons z zs)
    with "4.prems" have xz: "(of_char x :: nat) \<le> of_char z" and zy: "(of_char z :: nat) \<le> of_char y"
      by (auto split: if_splits)
    show ?thesis
    proof (cases "(of_char x :: nat) < of_char y")
      case True
      then show ?thesis by simp
    next
      case False
      have n1: "(of_char x :: nat) = of_char z" using xz zy False by linarith
      have n2: "(of_char z :: nat) = of_char y" using xz zy False by linarith
      have e: "x = z" "z = y" using n1 n2 by simp_all
      with "4.prems" Cons have "codeUnitCompare xs zs \<le> 0" "codeUnitCompare zs ys \<le> 0" by simp_all
      with "4.IH" [of zs] e show ?thesis by simp
    qed
  qed
qed

lemma codeUnitCompare_consistent: "consistentComparator codeUnitCompare"
  unfolding consistentComparator_def
  using codeUnitCompare_total codeUnitCompare_trans by blast

lemma distinct_map_filter_ids:
  "distinct (map airtableRecordId ms) \<Longrightarrow> distinct (filter P ms)"
  by (simp add: distinct_map)

lemma filter_insertSorted_other:
  "\<not> P a \<Longrightarrow> filter P (insertSorted cmp a xs) = filter P xs"
  by (induction xs) auto

lemma filter_insertSorted_tie:
  assumes tr: "\<And>x y z. cmp x y \<le> 0 \<Longrightarrow> cmp y z \<le> 0 \<Longrightarrow> cmp x z \<le> 0"
    and ka: "cmp k (f a) \<le> 0" and ak: "cmp (f a) k \<le> 0"
  shows "filter (\<lambda>c. cmp k (f c) \<le> 0 \<and> cmp (f c) k \<le> 0)
           (insertSorted (\<lambda>a b. cmp (f a) (f b)) a xs)
         = a # filter (\<lambda>c. cmp k (f c) \<le> 0 \<and> cmp (f c) k \<le> 0) xs"
proof (induction xs)
  case Nil
  then show ?case using ka ak by simp
next
  case (Cons b bs)
  show ?case
  proof (cases "cmp (f a) (f b) \<le> 0")
    case True
    then show ?thesis using ka ak by simp
  next
    case False
    have nb: "\<not> (cmp k (f b) \<le> 0 \<and> cmp (f b) k \<le> 0)"
    proof
      assume "cmp k (f b) \<le> 0 \<and> cmp (f b) k \<le> 0"
      then have "cmp (f a) (f b) \<le> 0" using tr [OF ak] by blast
      then show False using False by simp
    qed
    have e: "insertSorted (\<lambda>a b. cmp (f a) (f b)) a (b # bs)
            = b # insertSorted (\<lambda>a b. cmp (f a) (f b)) a bs"
      using False by simp
    have "filter (\<lambda>c. cmp k (f c) \<le> 0 \<and> cmp (f c) k \<le> 0)
                 (insertSorted (\<lambda>a b. cmp (f a) (f b)) a (b # bs))
               = filter (\<lambda>c. cmp k (f c) \<le> 0 \<and> cmp (f c) k \<le> 0)
                   (b # insertSorted (\<lambda>a b. cmp (f a) (f b)) a bs)"
      by (simp only: e)
    also have "\<dots> = filter (\<lambda>c. cmp k (f c) \<le> 0 \<and> cmp (f c) k \<le> 0)
                   (insertSorted (\<lambda>a b. cmp (f a) (f b)) a bs)"
      using nb by simp
    also have "\<dots> = a # filter (\<lambda>c. cmp k (f c) \<le> 0 \<and> cmp (f c) k \<le> 0) bs"
      by (rule Cons.IH)
    also have "\<dots> = a # filter (\<lambda>c. cmp k (f c) \<le> 0 \<and> cmp (f c) k \<le> 0) (b # bs)"
      using nb by simp
    finally show ?thesis .
  qed
qed

lemma stable_sortWith:
  assumes "consistentComparator cmp"
  shows "filter (\<lambda>c. cmp k (f c) \<le> 0 \<and> cmp (f c) k \<le> 0) (sortWith (\<lambda>a b. cmp (f a) (f b)) xs)
         = filter (\<lambda>c. cmp k (f c) \<le> 0 \<and> cmp (f c) k \<le> 0) xs"
proof (induction xs)
  case Nil
  then show ?case by simp
next
  case (Cons a as)
  have tr: "\<And>x y z. cmp x y \<le> 0 \<Longrightarrow> cmp y z \<le> 0 \<Longrightarrow> cmp x z \<le> 0"
    using assms unfolding consistentComparator_def by blast
  show ?case
  proof (cases "cmp k (f a) \<le> 0 \<and> cmp (f a) k \<le> 0")
    case True
    then have ka: "cmp k (f a) \<le> 0" and ak: "cmp (f a) k \<le> 0" by simp_all
    have "filter (\<lambda>c. cmp k (f c) \<le> 0 \<and> cmp (f c) k \<le> 0)
            (insertSorted (\<lambda>a b. cmp (f a) (f b)) a (sortWith (\<lambda>a b. cmp (f a) (f b)) as))
          = a # filter (\<lambda>c. cmp k (f c) \<le> 0 \<and> cmp (f c) k \<le> 0)
                  (sortWith (\<lambda>a b. cmp (f a) (f b)) as)"
      by (rule filter_insertSorted_tie [of cmp k f a, OF tr ka ak])
    then show ?thesis using True Cons.IH by simp
  next
    case False
    then show ?thesis using Cons.IH by (simp add: filter_insertSorted_other)
  qed
qed

text \<open>
  C5 (as amended). The pool is the list of candidates, each repeated
  \<open>clamp(round(weight), 1, 10)\<close> times in a row. The candidates are the catalogue entries
  that match the requested format, need no more images than are available, share a
  category with the filter when a filter with at least one key is given, and have a
  positive rotation weight; so every pool entry meets these criteria. The candidates stand
  in the order \<open>localeCompare\<close> gives their record ids, which is the collation of the
  host: with a consistent collation no candidate is followed by one that it must follow,
  and candidates whose ids the collation ranks alike keep the order of the catalogue. The
  record ids of the catalogue being distinct (they are the keys of the map), every eligible
  entry occurs in the pool exactly \<open>clamp(round(weight), 1, 10)\<close> times: three times for
  weight 3, ten times for weight 15.
\<close>

theorem getRotationPool_weighted:
  "\<exists>cands.
      getRotationPool localeCompare catalogue format n cats =
        concat (map (\<lambda>c. replicate (nat (min (max 1 (mathRound (rotationWeight c))) 10)) c) cands)
    \<and> mset cands = mset (filter (eligible format n cats) catalogue)
    \<and> (consistentComparator localeCompare \<longrightarrow>
         sorted_wrt (\<lambda>a b. localeCompare (airtableRecordId a) (airtableRecordId b) \<le> 0) cands
         \<and> (\<forall>k. filter (\<lambda>c. localeCompare k (airtableRecordId c) \<le> 0
                            \<and> localeCompare (airtableRecordId c) k \<le> 0) cands
                = filter (\<lambda>c. localeCompare k (airtableRecordId c) \<le> 0
                            \<and> localeCompare (airtableRecordId c) k \<le> 0)
                    (filter (eligible format n cats) catalogue)))
    \<and> (\<forall>m \<in> set (getRotationPool localeCompare catalogue format n cats).
         m \<in> set catalogue \<and> eligible format n cats m)
    \<and> (distinct (map airtableRecordId catalogue) \<longrightarrow>
         distinct cands
         \<and> (\<forall>m \<in> set catalogue. eligible format n cats m \<longrightarrow>
              count_list (getRotationPool localeCompare catalogue format n cats) m
                = nat (min (max 1 (mathRound (rotationWeight m))) 10)
              \<and> (rotationWeight m = 3 \<longrightarrow>
                   count_list (getRotationPool localeCompare catalogue format n cats) m = 3)
              \<and> (rotationWeight m = 15 \<longrightarrow>
                   count_list (getRotationPool localeCompare catalogue format n cats) m = 10)))"
proof -
  let ?key = "\<lambda>a b. localeCompare (airtableRecordId a) (airtableRecordId b)"
  let ?cands = "sortWith ?key (collectCandidates format n cats catalogue)"
  let ?pool = "getRotationPool localeCompare catalogue format n cats"
  have pool: "?pool = expandByWeight ?cands"
    by (simp add: getRotationPool_def Let_def)
  have ms: "mset ?cands = mset (filter (eligible format n cats) catalogue)"
    by (simp only: mset_sortWith collectCandidates_filter)
  have st: "set ?cands = {m \<in> set catalogue. eligible format n cats m}"
    using mset_eq_setD [OF ms] by simp
  have c1: "?pool = concat (map (\<lambda>c. replicate (nat (min (max 1 (mathRound (rotationWeight c))) 10)) c) ?cands)"
    by (simp only: pool expandByWeight_concat poolCopies_def)
  have c3: "consistentComparator localeCompare \<longrightarrow>
         sorted_wrt (\<lambda>a b. ?key a b \<le> 0) ?cands
         \<and> (\<forall>k. filter (\<lambda>c. localeCompare k (airtableRecordId c) \<le> 0
                            \<and> localeCompare (airtableRecordId c) k \<le> 0) ?cands
                = filter (\<lambda>c. localeCompare k (airtableRecordId c) \<le> 0
                            \<and> localeCompare (airtableRecordId c) k \<le> 0)
                    (filter (eligible format n cats) catalogue))"
  proof (intro impI conjI allI)
    assume cc: "consistentComparator localeCompare"
    then have "consistentComparator ?key" by (rule consistent_on_key)
    then show "sorted_wrt (\<lambda>a b. ?key a b \<le> 0) ?cands" by (rule sorted_sortWith)
    fix k
    show "filter (\<lambda>c. localeCompare k (airtableRecordId c) \<le> 0
                            \<and> localeCompare (airtableRecordId c) k \<le> 0) ?cands
                = filter (\<lambda>c. localeCompare k (airtableRecordId c) \<le> 0
                            \<and> localeCompare (airtableRecordId c) k \<le> 0)
                    (filter (eligible format n cats) catalogue)"
      using stable_sortWith [OF cc, of k airtableRecordId "collectCandidates format n cats catalogue"]
      by (simp only: collectCandidates_filter)
  qed
  have c4: "\<forall>m \<in> set ?pool. m \<in> set catalogue \<and> eligible format n cats m"
    by (simp only: pool set_expandByWeight st) simp
  have c5: "distinct (map airtableRecordId catalogue) \<longrightarrow>
         distinct ?cands
         \<and> (\<forall>m \<in> set catalogue. eligible format n cats m \<longrightarrow>
              count_list ?pool m = nat (min (max 1 (mathRound (rotationWeight m))) 10)
              \<and> (rotationWeight m = 3 \<longrightarrow> count_list ?pool m = 3)
              \<and> (rotationWeight m = 15 \<longrightarrow> count_list ?pool m = 10))"
  proof (intro impI conjI ballI)
    assume d: "distinct (map airtableRecordId catalogue)"
    have "distinct (filter (eligible format n cats) catalogue)"
      using d by (rule distinct_map_filter_ids)
    then show dc: "distinct ?cands"
      using mset_eq_imp_distinct_iff [OF ms] by simp
    fix m assume m: "m \<in> set catalogue" and e: "eligible format n cats m"
    then have "m \<in> set ?cands" by (simp only: st) simp
    then have cnt: "count_list ?pool m = nat (poolCopies m)"
      using dc by (simp only: pool count_expandByWeight)
    then show "count_list ?pool m = nat (min (max 1 (mathRound (rotationWeight m))) 10)"
      by (simp only: poolCopies_def)
    show "count_list ?pool m = 3" if "rotationWeight m = 3"
      using cnt poolCopies_3 [OF that] by simp
    show "count_list ?pool m = 10" if "rotationWeight m = 15"
      using cnt poolCopies_15 [OF that] by simp
  qed
  show ?thesis
    using c1 ms c3 c4 c5 by (intro exI [of _ ?cands] conjI)
qed

theorem getRotationPool_weighted_witness:
  "consistentComparator codeUnitCompare
   \<and> distinct (map airtableRecordId sampleCatalogue)
   \<and> getRotationPool codeUnitCompare sampleCatalogue PNG 2 (Some [''plumbing'']) =
       replicate 3 (sampleMeta ''recA'' PNG 1 3 [''plumbing'', ''roofing''])
       @ replicate 10 (sampleMeta ''recC'' PNG 2 15 [''plumbing''])
   \<and> count_list (getRotationPool codeUnitCompare sampleCatalogue PNG 2 (Some [''plumbing'']))
        (sampleMeta ''recA'' PNG 1 3 [''plumbing'', ''roofing'']) = 3
   \<and> count_list (getRotationPool codeUnitCompare sampleCatalogue PNG 2 (Some [''plumbing'']))
        (sampleMeta ''recC'' PNG 2 15 [''plumbing'']) = 10"
proof -
  let ?A = "sampleMeta ''recA'' PNG 1 3 [''plumbing'', ''roofing'']"
  let ?C = "sampleMeta ''recC'' PNG 2 15 [''plumbing'']"
  let ?pool = "getRotationPool codeUnitCompare sampleCatalogue PNG 2 (Some [''plumbing''])"
  have d: "distinct (map airtableRecordId sampleCatalogue)"
    by (simp add: sampleCatalogue_def sampleMeta_def)
  have inA: "?A \<in> set sampleCatalogue" and inC: "?C \<in> set sampleCatalogue"
    by (simp_all add: sampleCatalogue_def)
  have eA: "eligible PNG 2 (Some [''plumbing'']) ?A" and eC: "eligible PNG 2 (Some [''plumbing'']) ?C"
    by (simp_all add: eligible_def sampleMeta_def sampleTemplate_def)
  have wA: "rotationWeight ?A = 3" and wC: "rotationWeight ?C = 15"
    by (simp_all add: sampleMeta_def)
  obtain cands where
    "distinct (map airtableRecordId sampleCatalogue) \<longrightarrow>
         distinct cands
         \<and> (\<forall>m \<in> set sampleCatalogue. eligible PNG 2 (Some [''plumbing'']) m \<longrightarrow>
              count_list ?pool m = nat (min (max 1 (mathRound (rotationWeight m))) 10)
              \<and> (rotationWeight m = 3 \<longrightarrow> count_list ?pool m = 3)
              \<and> (rotationWeight m = 15 \<longrightarrow> count_list ?pool m = 10))"
    using getRotationPool_weighted [of codeUnitCompare sampleCatalogue PNG 2 "Some [''plumbing'']"]
    by blast
  with d have cnt: "\<forall>m \<in> set sampleCatalogue. eligible PNG 2 (Some [''plumbing'']) m \<longrightarrow>
              (rotationWeight m = 3 \<longrightarrow> count_list ?pool m = 3)
              \<and> (rotationWeight m = 15 \<longrightarrow> count_list ?pool m = 10)"
    by blast
  have cA: "count_list ?pool ?A = 3" using cnt inA eA wA by blast
  have cC: "count_list ?pool ?C = 10" using cnt inC eC wC by blast
  have cmp: "codeUnitCompare ''recA'' ''recC'' \<le> 0" by simp
  have r3: "mathRound 3 = 3" and r15: "mathRound 15 = 15" by (simp_all add: mathRound_def)
  have pool: "?pool = replicate 3 ?A @ replicate 10 ?C"
    using cmp by (simp add: getRotationPool_def sampleCatalogue_def sampleMeta_def sampleTemplate_def
        poolCopies_def r3 r15)
  show ?thesis
    using codeUnitCompare_consistent d pool cA cC by (intro conjI)
qed

text \<open>
  The claim as stated has the candidates in the lexicographic order of their record ids.
  The order is that of \<open>localeCompare\<close>, which ranks letters before it looks at their
  case: of the ids \<open>recZ\<close> and \<open>reca\<close> the collation puts \<open>reca\<close> first, and so
  does the pool, while code unit by code unit \<open>recZ\<close> comes first. The claim also asks
  every entry to meet the category filter when one is given: the empty filter is given
  here, no entry has a category in it, and the pool is not empty.
\<close>

theorem getRotationPool_order_counterexample:
  "getRotationPool sampleCollation mixedCaseCatalogue PNG 1 None =
     [sampleMeta ''reca'' PNG 1 1 [], sampleMeta ''recZ'' PNG 1 1 []]
   \<and> codeUnitCompare ''recZ'' ''reca'' < 0
   \<and> \<not> sorted_wrt (\<lambda>a b. codeUnitCompare (airtableRecordId a) (airtableRecordId b) \<le> 0)
         (getRotationPool sampleCollation mixedCaseCatalogue PNG 1 None)
   \<and> getRotationPool sampleCollation mixedCaseCatalogue PNG 1 (Some []) =
     [sampleMeta ''reca'' PNG 1 1 [], sampleMeta ''recZ'' PNG 1 1 []]
   \<and> \<not> intersectsFilter [] (sampleMeta ''reca'' PNG 1 1 [])"
proof -
  have c: "sampleCollation ''reca'' ''recZ'' = - 1" "sampleCollation ''recZ'' ''reca'' = 1"
    by (simp_all add: sampleCollation_def primaryWeight_def Let_def)
  have r1: "mathRound 1 = 1" by (simp add: mathRound_def)
  have p: "getRotationPool sampleCollation mixedCaseCatalogue PNG 1 None =
     [sampleMeta ''reca'' PNG 1 1 [], sampleMeta ''recZ'' PNG 1 1 []]"
    using c by (simp add: getRotationPool_def mixedCaseCatalogue_def sampleMeta_def
        sampleTemplate_def poolCopies_def r1)
  have q: "getRotationPool sampleCollation mixedCaseCatalogue PNG 1 (Some []) =
     [sampleMeta ''reca'' PNG 1 1 [], sampleMeta ''recZ'' PNG 1 1 []]"
    using c by (simp add: getRotationPool_def mixedCaseCatalogue_def sampleMeta_def
        sampleTemplate_def poolCopies_def r1)
  have l: "codeUnitCompare ''recZ'' ''reca'' < 0" by simp
  have m: "codeUnitCompare ''reca'' ''recZ'' = 1" by simp
  have n: "\<not> sorted_wrt (\<lambda>a b. codeUnitCompare (airtableRecordId a) (airtableRecordId b) \<le> 0)
         (getRotationPool sampleCollation mixedCaseCatalogue PNG 1 None)"
    unfolding p using m by (simp add: sampleMeta_def)
  have i: "\<not> intersectsFilter [] (sampleMeta ''reca'' PNG 1 1 [])"
    by (simp add: intersectsFilter_def)
  show ?thesis using p l n q i by (intro conjI)
qed

subsection \<open>The image cache\<close>

lemma mapSet_fresh: "k \<notin> fst ` set m \<Longrightarrow> mapSet m k v = m @ [(k, v)]"
  by (induction m) auto

lemma mapDelete_first:
  "distinct (map fst ((k, v) # m)) \<Longrightarrow> mapDelete ((k, v) # m) k = m"
  by (auto simp: mapDelete_def filter_id_conv image_iff)

lemma mapGet_None: "mapGet m k = None \<longleftrightarrow> k \<notin> fst ` set m"
  by (simp add: mapGet_def map_of_eq_None_iff)

lemma load_hit:
  "mapGet (imageCache st) url = Some img \<Longrightarrow> loadRemoteImage download url st = (Inr img, st)"
  by (simp add: loadRemoteImage_def)

lemma load_fail:
  "mapGet (imageCache st) url = None \<Longrightarrow> download url = Inl e \<Longrightarrow>
     loadRemoteImage download url st = (Inl e, st\<lparr>fetched := fetched st @ [url]\<rparr>)"
  by (simp add: loadRemoteImage_def)

lemma load_miss_room:
  "mapGet (imageCache st) url = None \<Longrightarrow> download url = Inr img \<Longrightarrow>
   length (imageCache st) < MAX_CACHE_SIZE \<Longrightarrow>
     loadRemoteImage download url st =
       (Inr img, st\<lparr>fetched := fetched st @ [url], imageCache := imageCache st @ [(url, img)]\<rparr>)"
proof -
  assume a: "mapGet (imageCache st) url = None" "download url = Inr img"
    "length (imageCache st) < MAX_CACHE_SIZE"
  have fresh: "url \<notin> fst ` set (imageCache st)" using a(1) by (simp add: mapGet_None)
  show ?thesis using a by (simp add: loadRemoteImage_def mapSet_fresh [OF fresh])
qed

lemma load_miss_full:
  assumes "cacheInv st" "mapGet (imageCache st) url = None" "download url = Inr img"
    "length (imageCache st) = MAX_CACHE_SIZE"
  shows "loadRemoteImage download url st =
       (Inr img, st\<lparr>fetched := fetched st @ [url], imageCache := tl (imageCache st) @ [(url, img)]\<rparr>)"
proof -
  obtain k v m where c: "imageCache st = (k, v) # m"
    using assms(4) by (cases "imageCache st") (auto simp: MAX_CACHE_SIZE_def)
  have k: "k \<noteq> []" and d: "distinct (map fst ((k, v) # m))"
    using assms(1) c by (auto simp: cacheInv_def)
  have fresh: "url \<notin> fst ` set m" using assms(2) c by (auto simp: mapGet_None)
  have del: "mapDelete ((k, v) # m) k = m" using d by (rule mapDelete_first)
  show ?thesis
    using assms(2,3,4) k
    by (simp add: loadRemoteImage_def c del mapSet_fresh [OF fresh])
qed

lemma load_inv:
  assumes "\<forall>img. download [] \<noteq> Inr img" "cacheInv st"
  shows "cacheInv (snd (loadRemoteImage download url st))"
proof (cases "mapGet (imageCache st) url")
  case (Some img)
  then show ?thesis using assms(2) by (simp add: load_hit)
next
  case None
  show ?thesis
  proof (cases "download url")
    case (Inl e)
    then show ?thesis using None assms(2) by (simp add: load_fail cacheInv_def)
  next
    case (Inr img)
    then have u: "url \<noteq> []" using assms(1) by auto
    have fresh: "url \<notin> fst ` set (imageCache st)" using None by (simp add: mapGet_None)
    show ?thesis
    proof (cases "length (imageCache st) < MAX_CACHE_SIZE")
      case True
      then show ?thesis
        using None Inr assms(2) u fresh by (auto simp: load_miss_room cacheInv_def)
    next
      case False
      then have full: "length (imageCache st) = MAX_CACHE_SIZE"
        using assms(2) by (simp add: cacheInv_def)
      then obtain k v m where c: "imageCache st = (k, v) # m"
        by (cases "imageCache st") (auto simp: MAX_CACHE_SIZE_def)
      have lm: "loadRemoteImage download url st =
          (Inr img, st\<lparr>fetched := fetched st @ [url], imageCache := tl (imageCache st) @ [(url, img)]\<rparr>)"
        using assms(2) None Inr full by (rule load_miss_full)
      show ?thesis
        using assms(2) u fresh full c by (auto simp: lm cacheInv_def)
    qed
  qed
qed

lemma loadSequence_inv:
  "\<forall>img. download [] \<noteq> Inr img \<Longrightarrow> cacheInv st \<Longrightarrow> cacheInv (loadSequence download urls st)"
  by (induction urls arbitrary: st) (simp_all add: load_inv)

lemma noAssets_inv: "cacheInv noAssets"
  by (simp add: cacheInv_def noAssets_def)


lemma loadSequence_append:
  "loadSequence download (xs @ ys) st = loadSequence download ys (loadSequence download xs st)"
  by (induction xs arbitrary: st) simp_all

lemma sampleUrl_inj: "sampleUrl i = sampleUrl j \<longleftrightarrow> i = j"
proof
  assume "sampleUrl i = sampleUrl j"
  then have "length (sampleUrl i) = length (sampleUrl j)" by simp
  then show "i = j" by (simp add: sampleUrl_def)
qed simp

lemma sampleUrl_nonempty: "sampleUrl i \<noteq> []"
  by (simp add: sampleUrl_def)

lemma sample_fill:
  "n \<le> MAX_CACHE_SIZE \<Longrightarrow>
   loadSequence sampleDownload (map sampleUrl [0..<n]) noAssets =
     \<lparr>imageCache = map (\<lambda>i. (sampleUrl i, sampleImage)) [0..<n], fetched = map sampleUrl [0..<n]\<rparr>"
proof (induction n)
  case 0
  then show ?case by (simp add: noAssets_def)
next
  case (Suc n)
  let ?st = "\<lparr>imageCache = map (\<lambda>i. (sampleUrl i, sampleImage)) [0..<n], fetched = map sampleUrl [0..<n]\<rparr>"
  have st: "loadSequence sampleDownload (map sampleUrl [0..<n]) noAssets = ?st"
    using Suc by simp
  have miss: "mapGet (imageCache ?st) (sampleUrl n) = None"
    by (auto simp: mapGet_None sampleUrl_inj)
  have dl: "sampleDownload (sampleUrl n) = Inr sampleImage"
    by (simp add: sampleDownload_def sampleUrl_nonempty)
  have room: "length (imageCache ?st) < MAX_CACHE_SIZE" using Suc.prems by simp
  have "loadSequence sampleDownload (map sampleUrl [0..<Suc n]) noAssets
      = snd (loadRemoteImage sampleDownload (sampleUrl n) ?st)"
    by (simp add: loadSequence_append st)
  also have "\<dots> = \<lparr>imageCache = map (\<lambda>i. (sampleUrl i, sampleImage)) [0..<Suc n],
                     fetched = map sampleUrl [0..<Suc n]\<rparr>"
    using load_miss_room [of ?st "sampleUrl n" sampleDownload sampleImage] miss dl room
    by simp
  finally show ?case .
qed

text \<open>
  C8. Fetching the empty URL fails. Then, after any sequence of loads from the empty cache,
  the cache holds at most 100 entries; loading a cached URL returns the cached image and
  leaves the state as it is, the list of fetched URLs included; and loading a URL that is
  not cached into a cache of 100 entries removes the earliest-inserted entry and appends the
  new one: the cache still holds 100 entries, the evicted URL is no longer cached, and each
  of the other 99 entries and the new one is returned from the cache with no further fetch.
\<close>

theorem imageCache_bounded_fifo:
  assumes "\<forall>img. download [] \<noteq> Inr img"
    and "st = loadSequence download urls noAssets"
  shows "length (imageCache st) \<le> 100
    \<and> (\<forall>url img. mapGet (imageCache st) url = Some img \<longrightarrow>
          loadRemoteImage download url st = (Inr img, st))
    \<and> (\<forall>url img. length (imageCache st) = 100 \<and> mapGet (imageCache st) url = None
                    \<and> download url = Inr img \<longrightarrow>
          (\<exists>st'. loadRemoteImage download url st = (Inr img, st')
             \<and> imageCache st' = tl (imageCache st) @ [(url, img)]
             \<and> fetched st' = fetched st @ [url]
             \<and> length (imageCache st') = 100
             \<and> mapGet (imageCache st') (fst (hd (imageCache st))) = None
             \<and> (\<forall>k v. (k, v) \<in> set (tl (imageCache st) @ [(url, img)]) \<longrightarrow>
                   loadRemoteImage download k st' = (Inr v, st'))))"
proof (intro conjI allI impI)
  have "cacheInv (loadSequence download urls noAssets)"
    using assms(1) noAssets_inv by (rule loadSequence_inv)
  then have inv: "cacheInv st" by (simp only: assms(2))
  show "length (imageCache st) \<le> 100"
    using inv by (simp add: cacheInv_def MAX_CACHE_SIZE_def)
  show "loadRemoteImage download url st = (Inr img, st)"
    if "mapGet (imageCache st) url = Some img" for url img
    using that by (rule load_hit)
  fix url img
  assume a: "length (imageCache st) = 100 \<and> mapGet (imageCache st) url = None
               \<and> download url = Inr img"
  let ?st' = "st\<lparr>fetched := fetched st @ [url], imageCache := tl (imageCache st) @ [(url, img)]\<rparr>"
  from a have full: "length (imageCache st) = MAX_CACHE_SIZE" and miss: "mapGet (imageCache st) url = None"
    and dl: "download url = Inr img" by (simp_all add: MAX_CACHE_SIZE_def)
  have lm: "loadRemoteImage download url st = (Inr img, ?st')"
    using inv miss dl full by (rule load_miss_full)
  have "cacheInv (snd (loadRemoteImage download url st))"
    using assms(1) inv by (rule load_inv)
  then have inv': "cacheInv ?st'" by (simp add: lm)
  obtain k0 v0 m where c: "imageCache st = (k0, v0) # m"
    using full by (cases "imageCache st") (auto simp: MAX_CACHE_SIZE_def)
  have fresh: "url \<notin> fst ` set (imageCache st)" using miss by (simp add: mapGet_None)
  have gone: "mapGet (imageCache ?st') (fst (hd (imageCache st))) = None"
    using inv fresh c by (auto simp: mapGet_None cacheInv_def)
  have keep: "loadRemoteImage download k ?st' = (Inr v, ?st')"
    if "(k, v) \<in> set (tl (imageCache st) @ [(url, img)])" for k v
  proof -
    have "distinct (map fst (imageCache ?st'))" using inv' by (simp add: cacheInv_def)
    then have "map_of (imageCache ?st') k = Some v"
      using that by (intro map_of_is_SomeI) simp_all
    then show ?thesis by (simp add: load_hit mapGet_def)
  qed
  show "\<exists>st'. loadRemoteImage download url st = (Inr img, st')
             \<and> imageCache st' = tl (imageCache st) @ [(url, img)]
             \<and> fetched st' = fetched st @ [url]
             \<and> length (imageCache st') = 100
             \<and> mapGet (imageCache st') (fst (hd (imageCache st))) = None
             \<and> (\<forall>k v. (k, v) \<in> set (tl (imageCache st) @ [(url, img)]) \<longrightarrow>
                   loadRemoteImage download k st' = (Inr v, st'))"
  proof (intro exI [of _ ?st'] conjI allI impI)
    show "loadRemoteImage download url st = (Inr img, ?st')" by (rule lm)
    show "length (imageCache ?st') = 100" using a c by simp
    show "mapGet (imageCache ?st') (fst (hd (imageCache st))) = None" by (rule gone)
    show "loadRemoteImage download k ?st' = (Inr v, ?st')"
      if "(k, v) \<in> set (tl (imageCache st) @ [(url, img)])" for k v
      using that by (rule keep)
  qed simp_all
qed


lemma sample_lookup:
  "mapGet (map (\<lambda>i. (sampleUrl i, sampleImage)) [a..<b]) (sampleUrl j) =
     (if a \<le> j \<and> j < b then Some sampleImage else None)"
proof (cases "a \<le> j \<and> j < b")
  case True
  have "distinct (map fst (map (\<lambda>i. (sampleUrl i, sampleImage)) [a..<b]))"
    by (simp add: distinct_map o_def inj_on_def sampleUrl_inj)
  moreover have "(sampleUrl j, sampleImage) \<in> set (map (\<lambda>i. (sampleUrl i, sampleImage)) [a..<b])"
    using True by auto
  ultimately have "map_of (map (\<lambda>i. (sampleUrl i, sampleImage)) [a..<b]) (sampleUrl j) = Some sampleImage"
    by (rule map_of_is_SomeI)
  then show ?thesis using True by (simp add: mapGet_def)
next
  case False
  then have "sampleUrl j \<notin> fst ` set (map (\<lambda>i. (sampleUrl i, sampleImage)) [a..<b])"
    by (auto simp: sampleUrl_inj)
  then have "mapGet (map (\<lambda>i. (sampleUrl i, sampleImage)) [a..<b]) (sampleUrl j) = None"
    using mapGet_None [of "map (\<lambda>i. (sampleUrl i, sampleImage)) [a..<b]" "sampleUrl j"] by blast
  with False show ?thesis by simp
qed

theorem imageCache_bounded_fifo_witness:
  "(\<forall>img. sampleDownload [] \<noteq> Inr img)
   \<and> length (imageCache (loadSequence sampleDownload (map sampleUrl [0..<100]) noAssets)) = 100
   \<and> loadRemoteImage sampleDownload (sampleUrl 7)
        (loadSequence sampleDownload (map sampleUrl [0..<100]) noAssets)
      = (Inr sampleImage, loadSequence sampleDownload (map sampleUrl [0..<100]) noAssets)
   \<and> (\<exists>st'. loadRemoteImage sampleDownload (sampleUrl 100)
                (loadSequence sampleDownload (map sampleUrl [0..<100]) noAssets)
              = (Inr sampleImage, st')
          \<and> imageCache st' = map (\<lambda>i. (sampleUrl i, sampleImage)) [1..<101]
          \<and> mapGet (imageCache st') (sampleUrl 0) = None
          \<and> loadRemoteImage sampleDownload (sampleUrl 99) st' = (Inr sampleImage, st')
          \<and> loadRemoteImage sampleDownload (sampleUrl 100) st' = (Inr sampleImage, st'))"
proof -
  let ?S = "loadSequence sampleDownload (map sampleUrl [0..<100]) noAssets"
  let ?f = "\<lambda>i. (sampleUrl i, sampleImage)"
  have nd: "\<forall>img. sampleDownload [] \<noteq> Inr img" by (simp add: sampleDownload_def)
  have S: "?S = \<lparr>imageCache = map ?f [0..<100], fetched = map sampleUrl [0..<100]\<rparr>"
    using sample_fill [of 100] by (simp add: MAX_CACHE_SIZE_def)
  have len: "length (imageCache ?S) = 100" by (simp add: S)
  have hit7: "mapGet (imageCache ?S) (sampleUrl 7) = Some sampleImage"
    by (simp add: S sample_lookup)
  have miss: "mapGet (imageCache ?S) (sampleUrl 100) = None"
    by (simp add: S sample_lookup)
  have dl: "sampleDownload (sampleUrl 100) = Inr sampleImage"
    by (simp add: sampleDownload_def sampleUrl_nonempty)
  have c00: "imageCache ?S = map ?f [0..<100]" by (simp add: S)
  have c0: "imageCache ?S = ?f 0 # map ?f [1..<100]"
    unfolding c00 by (simp add: upt_conv_Cons)
  have u1: "[1..<101] = [1..<100] @ [100]"
    using upt_Suc_append [of 1 100] by simp
  have tl: "tl (imageCache ?S) @ [(sampleUrl 100, sampleImage)] = map ?f [1..<101]"
    unfolding c0 u1 by simp
  have hd: "fst (hd (imageCache ?S)) = sampleUrl 0" unfolding c0 by simp
  note main = imageCache_bounded_fifo [of sampleDownload ?S "map sampleUrl [0..<100]", OF nd refl]
  from main have h: "loadRemoteImage sampleDownload (sampleUrl 7) ?S = (Inr sampleImage, ?S)"
    using hit7 by blast
  from main len miss dl obtain st' where
    st': "loadRemoteImage sampleDownload (sampleUrl 100) ?S = (Inr sampleImage, st')"
      "imageCache st' = tl (imageCache ?S) @ [(sampleUrl 100, sampleImage)]"
      "mapGet (imageCache st') (fst (hd (imageCache ?S))) = None"
      "\<forall>k v. (k, v) \<in> set (tl (imageCache ?S) @ [(sampleUrl 100, sampleImage)]) \<longrightarrow>
                   loadRemoteImage sampleDownload k st' = (Inr v, st')"
    by blast
  have c: "imageCache st' = map ?f [1..<101]" using st'(2) tl by simp
  have m99: "(99::nat) \<in> set [1..<101]" and m100: "(100::nat) \<in> set [1..<101]" by simp_all
  have in99: "(sampleUrl 99, sampleImage) \<in> set (map ?f [1..<101])"
    unfolding set_map using m99 by (rule imageI [of 99 _ ?f])
  have in100: "(sampleUrl 100, sampleImage) \<in> set (map ?f [1..<101])"
    unfolding set_map using m100 by (rule imageI [of 100 _ ?f])
  have k99: "loadRemoteImage sampleDownload (sampleUrl 99) st' = (Inr sampleImage, st')"
    using st'(4) in99 tl by simp
  have k100: "loadRemoteImage sampleDownload (sampleUrl 100) st' = (Inr sampleImage, st')"
    using st'(4) in100 tl by simp
  have g: "mapGet (imageCache st') (sampleUrl 0) = None" using st'(3) hd by simp
  show ?thesis
    using nd len h st'(1) c g k99 k100 by blast
qed

subsection \<open>Text wrapping\<close>

lemma ellipsize_unfold:
  "ellipsize measureText maxWidth t =
     (if measureText (t @ ''...'') > maxWidth \<and> t \<noteq> []
      then ellipsize measureText maxWidth (dropLast t) else t)"
  by (subst ellipsize.simps) simp

declare ellipsize.simps [simp del]

lemma greedyLines_finish:
  "greedyLines measureText text maxWidth =
     finishLines measureText (wrapWords measureText maxWidth (split_space text) [] [])"
  by (simp add: greedyLines_def finishLines_def)

lemma wrapWords_Cons:
  "wrapWords measureText maxWidth (word # words) currentLine lines =
     (if measureText (joinWord currentLine word) > maxWidth \<and> currentLine \<noteq> [] then
        wrapWords measureText maxWidth words word
          (lines @ [\<lparr>line_text = currentLine, line_width = measureText currentLine\<rparr>])
      else wrapWords measureText maxWidth words (joinWord currentLine word) lines)"
  by (simp add: Let_def)

lemma wrapWords_push:
  assumes "measureText (joinWord currentLine word) > maxWidth \<and> currentLine \<noteq> []"
  shows "wrapWords measureText maxWidth (word # words) currentLine lines =
     wrapWords measureText maxWidth words word
       (lines @ [\<lparr>line_text = currentLine, line_width = measureText currentLine\<rparr>])"
  by (subst wrapWords_Cons) (rule if_P [OF assms])

lemma wrapWords_extend:
  assumes "\<not> (measureText (joinWord currentLine word) > maxWidth \<and> currentLine \<noteq> [])"
  shows "wrapWords measureText maxWidth (word # words) currentLine lines =
     wrapWords measureText maxWidth words (joinWord currentLine word) lines"
  by (subst wrapWords_Cons) (rule if_not_P [OF assms])

lemma wrapWords_invariant:
  assumes "set words \<subseteq> W"
    and "currentLine = [] \<or> currentLine \<in> W \<or> measureText currentLine \<le> maxWidth"
    and "\<forall>l\<in>set lines. lineOk measureText maxWidth W l"
  shows "\<forall>l\<in>set (finishLines measureText (wrapWords measureText maxWidth words currentLine lines)).
           lineOk measureText maxWidth W l"
  using assms
proof (induction words arbitrary: currentLine lines)
  case Nil
  then show ?case by (auto simp: finishLines_def lineOk_def)
next
  case (Cons word words)
  have w: "word \<in> W" and ws: "set words \<subseteq> W" using Cons.prems(1) by simp_all
  let ?test = "joinWord currentLine word"
  show ?case
  proof (cases "measureText ?test > maxWidth \<and> currentLine \<noteq> []")
    case True
    have "lineOk measureText maxWidth W \<lparr>line_text = currentLine, line_width = measureText currentLine\<rparr>"
      using True Cons.prems(2) by (auto simp: lineOk_def)
    then have ls: "\<forall>l\<in>set (lines @ [\<lparr>line_text = currentLine, line_width = measureText currentLine\<rparr>]).
        lineOk measureText maxWidth W l"
      using Cons.prems(3) by simp
    have c: "word = [] \<or> word \<in> W \<or> measureText word \<le> maxWidth" using w by simp
    show ?thesis
      unfolding wrapWords_push [of maxWidth measureText currentLine word words lines, OF True] by (rule Cons.IH [OF ws c ls])
  next
    case False
    have c: "?test = [] \<or> ?test \<in> W \<or> measureText ?test \<le> maxWidth"
    proof (cases "currentLine = []")
      case True
      then show ?thesis using w by (simp add: joinWord_def)
    next
      case nonempty: False
      then have "measureText ?test \<le> maxWidth" using False by simp
      then show ?thesis by simp
    qed
    show ?thesis
      unfolding wrapWords_extend [of maxWidth measureText currentLine word words lines, OF False] by (rule Cons.IH [OF ws c Cons.prems(3)])
  qed
qed

lemma greedyLines_ok:
  "\<forall>l\<in>set (greedyLines measureText text maxWidth).
      lineOk measureText maxWidth (set (split_space text)) l"
  unfolding greedyLines_finish
  by (rule wrapWords_invariant) simp_all

lemma wrapWords_keeps:
  "set lines \<subseteq> set (finishLines measureText (wrapWords measureText maxWidth words currentLine lines))"
proof (induction words arbitrary: currentLine lines)
  case Nil
  then show ?case by (auto simp: finishLines_def)
next
  case (Cons word words)
  show ?case
  proof (cases "measureText (joinWord currentLine word) > maxWidth \<and> currentLine \<noteq> []")
    case True
    show ?thesis
      unfolding wrapWords_push [of maxWidth measureText currentLine word words lines, OF True]
      using Cons.IH [of "lines @ [\<lparr>line_text = currentLine, line_width = measureText currentLine\<rparr>]" word]
      by simp
  next
    case False
    show ?thesis
      unfolding wrapWords_extend [of maxWidth measureText currentLine word words lines, OF False] by (rule Cons.IH)
  qed
qed

lemma wide_current_kept:
  assumes "widening measureText" "currentLine \<noteq> []" "maxWidth < measureText currentLine"
  shows "currentLine \<in> line_text ` set (finishLines measureText
           (wrapWords measureText maxWidth words currentLine lines))"
proof (cases words)
  case Nil
  then show ?thesis using assms(2) by (simp add: finishLines_def)
next
  case (Cons word rest)
  have "measureText currentLine \<le> measureText (currentLine @ '' '' @ word)"
    using assms(1) unfolding widening_def by blast
  then have t: "maxWidth < measureText (joinWord currentLine word)"
    using assms(2,3) by (simp add: joinWord_def)
  let ?pushed = "lines @ [\<lparr>line_text = currentLine, line_width = measureText currentLine\<rparr>]"
  have "set ?pushed \<subseteq> set (finishLines measureText (wrapWords measureText maxWidth rest word ?pushed))"
    by (rule wrapWords_keeps)
  moreover have "wrapWords measureText maxWidth words currentLine lines =
      wrapWords measureText maxWidth rest word ?pushed"
    unfolding Cons using t assms(2)
      wrapWords_push [of maxWidth measureText currentLine word rest lines] by simp
  ultimately have "\<lparr>line_text = currentLine, line_width = measureText currentLine\<rparr>
     \<in> set (finishLines measureText (wrapWords measureText maxWidth words currentLine lines))"
    by auto
  then show ?thesis by force
qed

lemma wide_word_alone:
  assumes "widening measureText" "w \<in> set words" "w \<noteq> []" "maxWidth < measureText w"
  shows "w \<in> line_text ` set (finishLines measureText
           (wrapWords measureText maxWidth words currentLine lines))"
  using assms(2)
proof (induction words arbitrary: currentLine lines)
  case Nil
  then show ?case by simp
next
  case (Cons word words)
  let ?test = "joinWord currentLine word"
  let ?pushed = "lines @ [\<lparr>line_text = currentLine, line_width = measureText currentLine\<rparr>]"
  show ?case
  proof (cases "word = w")
    case True
    show ?thesis
    proof (cases "currentLine = []")
      case empty: True
      then have "wrapWords measureText maxWidth (word # words) currentLine lines
                 = wrapWords measureText maxWidth words w lines"
        using True by (simp add: Let_def joinWord_def)
      then show ?thesis
        using wide_current_kept [OF assms(1,3,4), of words lines] by simp
    next
      case nonempty: False
      have "measureText w \<le> measureText (currentLine @ '' '' @ w)"
        using assms(1) unfolding widening_def by blast
      then have "maxWidth < measureText ?test"
        using assms(4) nonempty True by (simp add: joinWord_def)
      then have "wrapWords measureText maxWidth (word # words) currentLine lines
                 = wrapWords measureText maxWidth words w ?pushed"
        using True nonempty wrapWords_push [of maxWidth measureText currentLine word words lines]
        by simp
      then show ?thesis
        using wide_current_kept [OF assms(1,3,4), of words ?pushed] by simp
    qed
  next
    case False
    then have in_rest: "w \<in> set words" using Cons.prems by simp
    show ?thesis
    proof (cases "measureText ?test > maxWidth \<and> currentLine \<noteq> []")
      case True
      show ?thesis
        unfolding wrapWords_push [of maxWidth measureText currentLine word words lines, OF True] by (rule Cons.IH [OF in_rest])
    next
      case notpushed: False
      show ?thesis
        unfolding wrapWords_extend [of maxWidth measureText currentLine word words lines, OF notpushed] by (rule Cons.IH [OF in_rest])
    qed
  qed
qed


lemma ellipsize_go:
  assumes "measureText (t @ ''...'') > maxWidth \<and> length t > 0"
  shows "ellipsize measureText maxWidth t = ellipsize measureText maxWidth (dropLast t)"
  by (subst ellipsize.simps) (rule if_P [OF assms])

lemma ellipsize_stop:
  assumes "\<not> (measureText (t @ ''...'') > maxWidth \<and> length t > 0)"
  shows "ellipsize measureText maxWidth t = t"
  by (subst ellipsize.simps) (rule if_not_P [OF assms])

lemma ellipsize_fits:
  "measureText (ellipsize measureText maxWidth t @ ''...'') \<le> maxWidth
   \<or> ellipsize measureText maxWidth t = []"
proof (induction measureText maxWidth t rule: ellipsize.induct)
  case (1 measureText maxWidth t)
  show ?case
  proof (cases "measureText (t @ ''...'') > maxWidth \<and> length t > 0")
    case True
    then have "ellipsize measureText maxWidth t = ellipsize measureText maxWidth (dropLast t)"
      by (rule ellipsize_go)
    then show ?thesis using "1.IH" [OF True] by simp
  next
    case False
    then have "ellipsize measureText maxWidth t = t"
      by (rule ellipsize_stop)
    then show ?thesis using False by auto
  qed
qed

lemma ellipsize_steps:
  "\<exists>k. ellipsize measureText maxWidth t = (dropLast ^^ k) t
       \<and> (\<forall>j<k. maxWidth < measureText ((dropLast ^^ j) t @ ''...'') \<and> (dropLast ^^ j) t \<noteq> [])"
proof (induction measureText maxWidth t rule: ellipsize.induct)
  case (1 measureText maxWidth t)
  show ?case
  proof (cases "measureText (t @ ''...'') > maxWidth \<and> length t > 0")
    case True
    then have e: "ellipsize measureText maxWidth t = ellipsize measureText maxWidth (dropLast t)"
      by (rule ellipsize_go)
    from "1.IH" [OF True] obtain k where
      k: "ellipsize measureText maxWidth (dropLast t) = (dropLast ^^ k) (dropLast t)"
        "\<forall>j<k. maxWidth < measureText ((dropLast ^^ j) (dropLast t) @ ''...'')
               \<and> (dropLast ^^ j) (dropLast t) \<noteq> []"
      by blast
    have "ellipsize measureText maxWidth t = (dropLast ^^ Suc k) t"
      using e k(1) by (simp add: funpow_swap1)
    moreover have "\<forall>j<Suc k. maxWidth < measureText ((dropLast ^^ j) t @ ''...'')
               \<and> (dropLast ^^ j) t \<noteq> []"
    proof (intro allI impI)
      fix j assume j: "j < Suc k"
      show "maxWidth < measureText ((dropLast ^^ j) t @ ''...'') \<and> (dropLast ^^ j) t \<noteq> []"
      proof (cases j)
        case 0
        then show ?thesis using True by simp
      next
        case (Suc i)
        then have "i < k" using j by simp
        then show ?thesis using k(2) Suc by (simp add: funpow_swap1)
      qed
    qed
    ultimately show ?thesis by blast
  next
    case False
    then have "ellipsize measureText maxWidth t = t"
      by (rule ellipsize_stop)
    then have "ellipsize measureText maxWidth t = (dropLast ^^ 0) t" by simp
    then show ?thesis by blast
  qed
qed

lemma ellipsize_too_narrow:
  assumes "\<forall>s. measureText ''...'' \<le> measureText (s @ ''...'')" "maxWidth < measureText ''...''"
  shows "ellipsize measureText maxWidth t = []"
  using assms
proof (induction measureText maxWidth t rule: ellipsize.induct)
  case (1 measureText maxWidth t)
  show ?case
  proof (cases "t = []")
    case True
    then have "\<not> (measureText (t @ ''...'') > maxWidth \<and> length t > 0)" by simp
    then have "ellipsize measureText maxWidth t = t" by (rule ellipsize_stop)
    then show ?thesis using True by simp
  next
    case False
    have "measureText ''...'' \<le> measureText (t @ ''...'')" using "1.prems"(1) by blast
    then have c: "measureText (t @ ''...'') > maxWidth \<and> length t > 0"
      using "1.prems"(2) False by simp
    then have "ellipsize measureText maxWidth t = ellipsize measureText maxWidth (dropLast t)"
      by (rule ellipsize_go)
    then show ?thesis using "1.IH" [OF c "1.prems"] by simp
  qed
qed

lemma take_update_last:
  "0 < n \<Longrightarrow> n \<le> length xs \<Longrightarrow> (take n xs)[n - 1 := v] = take (n - 1) xs @ [v]"
proof -
  assume n: "0 < n" "n \<le> length xs"
  then obtain k where k: "n = Suc k" by (cases n) simp_all
  have "take (Suc k) xs = take k xs @ [xs ! k]"
    using n k by (simp add: take_Suc_conv_app_nth)
  then show ?thesis using n k by (simp add: list_update_append)
qed

lemma wrapText_plain:
  "\<not> truncates measureText text maxWidth maxLines \<Longrightarrow>
   wrapText measureText text maxWidth maxLines = Inr (greedyLines measureText text maxWidth)"
  by (auto simp: truncates_def wrapText_def Let_def split: option.splits)

lemma wrapText_cut:
  assumes "0 < m" "m < int (length (greedyLines measureText text maxWidth))"
  shows "wrapText measureText text maxWidth (Some m) =
     Inr (take (nat m - 1) (greedyLines measureText text maxWidth)
          @ [\<lparr>line_text = ellipsize measureText maxWidth
                   (line_text (greedyLines measureText text maxWidth ! (nat m - 1))) @ ''...'',
               line_width = measureText (ellipsize measureText maxWidth
                   (line_text (greedyLines measureText text maxWidth ! (nat m - 1))) @ ''...'')\<rparr>])"
proof -
  let ?ls = "greedyLines measureText text maxWidth"
  have n: "0 < nat m" "nat m \<le> length ?ls" "nat m - 1 < nat m" using assms by simp_all
  have idx: "js_index (take (nat m) ?ls) (m - 1) = Some (?ls ! (nat m - 1))"
    using assms n by (simp add: js_index_def nat_diff_distrib)
  have upd: "(take (nat m) ?ls)[nat m - 1 := v] = take (nat m - 1) ?ls @ [v]" for v
    using n(1,2) by (rule take_update_last)
  have s: "sliceTo m ?ls = take (nat m) ?ls" using assms by (simp add: sliceTo_def)
  have nm: "nat (m - 1) = nat m - 1" using assms by (simp add: nat_diff_distrib)
  show ?thesis
    using assms upd by (simp add: wrapText_def Let_def idx s nm)
qed


lemma wrapText_negative:
  assumes "m < 0"
  shows "wrapText measureText text maxWidth (Some m) = Inl (TypeError ''lastLine is undefined'')"
proof -
  have "js_index (sliceTo m (greedyLines measureText text maxWidth)) (m - 1) = None"
    using assms by (simp add: js_index_def)
  moreover have "m < int (length (greedyLines measureText text maxWidth))" using assms by simp
  ultimately show ?thesis using assms by (simp add: wrapText_def Let_def)
qed

text \<open>
  C1 (as amended). Every line that \<open>wrapText\<close> returns carries the measured width of
  its text, and that width is at most \<open>maxWidth\<close> unless the line is a single word of
  the input, or the result was truncated and the line is its last one and the bare ellipsis.
  When the result is not truncated and the measure never shrinks a text by joining another
  to it with a space, every non-empty word wider than \<open>maxWidth\<close> is a line by itself.
\<close>

theorem wrapText_line_widths:
  "wrapText measureText text maxWidth maxLines = Inr ls \<longrightarrow>
     (\<forall>l \<in> set ls.
        line_width l = measureText (line_text l)
        \<and> (line_width l \<le> maxWidth
           \<or> line_text l \<in> set (split_space text)
           \<or> (truncates measureText text maxWidth maxLines \<and> l = last ls
               \<and> line_text l = ''...'')))
     \<and> ((\<forall>a b. measureText a \<le> measureText (a @ '' '' @ b)
                \<and> measureText b \<le> measureText (a @ '' '' @ b))
         \<and> \<not> truncates measureText text maxWidth maxLines \<longrightarrow>
         (\<forall>w \<in> set (split_space text). w \<noteq> [] \<and> maxWidth < measureText w \<longrightarrow>
            (\<exists>l \<in> set ls. line_text l = w)))"
proof (intro impI conjI ballI)
  let ?g = "greedyLines measureText text maxWidth"
  let ?W = "set (split_space text)"
  assume r: "wrapText measureText text maxWidth maxLines = Inr ls"
  {
    fix l assume l: "l \<in> set ls"
    have "line_width l = measureText (line_text l)
        \<and> (line_width l \<le> maxWidth \<or> line_text l \<in> ?W
           \<or> (truncates measureText text maxWidth maxLines \<and> l = last ls \<and> line_text l = ''...''))"
    proof (cases "truncates measureText text maxWidth maxLines")
      case False
      then have "ls = ?g" using r by (simp add: wrapText_plain)
      then have "lineOk measureText maxWidth ?W l" using l greedyLines_ok by blast
      then show ?thesis unfolding lineOk_def by auto
    next
      case True
      then obtain m where m: "maxLines = Some m" "m \<noteq> 0" "m < int (length ?g)"
        by (auto simp: truncates_def split: option.splits)
      have pos: "0 < m"
      proof (rule ccontr)
        assume "\<not> 0 < m"
        then have "m < 0" using m(2) by simp
        then show False using r m(1) by (simp add: wrapText_negative)
      qed
      let ?t = "ellipsize measureText maxWidth (line_text (?g ! (nat m - 1)))"
      let ?new = "\<lparr>line_text = ?t @ ''...'', line_width = measureText (?t @ ''...'')\<rparr>"
      have ls: "ls = take (nat m - 1) ?g @ [?new]"
        using r m(1) wrapText_cut [OF pos m(3)] by simp
      show ?thesis
      proof (cases "l = ?new")
        case new: True
        have wl: "line_width l = measureText (line_text l)" using new by simp
        have "measureText (?t @ ''...'') \<le> maxWidth \<or> ?t = []" by (rule ellipsize_fits)
        then show ?thesis
        proof
          assume "measureText (?t @ ''...'') \<le> maxWidth"
          then show ?thesis using new by simp
        next
          assume "?t = []"
          then have "line_text l = ''...''" using new by simp
          moreover have "l = last ls" using new ls by simp
          ultimately show ?thesis using True wl by blast
        qed
      next
        case old: False
        then have "l \<in> set (take (nat m - 1) ?g)" using l ls by simp
        then have "l \<in> set ?g" by (rule in_set_takeD)
        then have "lineOk measureText maxWidth ?W l" using greedyLines_ok by blast
        then show ?thesis unfolding lineOk_def by auto
      qed
    qed
  }
  note each = this
  show "line_width l = measureText (line_text l)" if "l \<in> set ls" for l
    using each [OF that] by blast
  show "line_width l \<le> maxWidth \<or> line_text l \<in> ?W
           \<or> (truncates measureText text maxWidth maxLines \<and> l = last ls \<and> line_text l = ''...'')"
    if "l \<in> set ls" for l
    using each [OF that] by blast
  fix w
  assume h: "(\<forall>a b. measureText a \<le> measureText (a @ '' '' @ b)
                \<and> measureText b \<le> measureText (a @ '' '' @ b))
         \<and> \<not> truncates measureText text maxWidth maxLines"
    and w: "w \<in> ?W" "w \<noteq> [] \<and> maxWidth < measureText w"
  have wd: "widening measureText" using h by (simp add: widening_def)
  have "ls = ?g" using r h by (simp add: wrapText_plain)
  moreover have "w \<in> line_text ` set ?g"
    unfolding greedyLines_finish using wd w(1) w(2) [THEN conjunct1] w(2) [THEN conjunct2]
    by (rule wide_word_alone)
  ultimately show "\<exists>l \<in> set ls. line_text l = w" by auto
qed

text \<open>
  C2 (as amended). For a positive \<open>maxLines\<close> below the number of lines of the greedy
  wrap, \<open>wrapText\<close> returns exactly \<open>maxLines\<close> lines: the first \<open>maxLines - 1\<close>
  lines of the greedy wrap, then the text \<open>t\<close> followed by the ellipsis, with its measured
  width. \<open>t\<close> is the text of line \<open>maxLines\<close> after \<open>k\<close> rounds of dropping the last
  character and trimming the white space at the end; before each round the text with the
  ellipsis was wider than \<open>maxWidth\<close> and not empty; at the end the text with the ellipsis
  fits, or \<open>t\<close> is empty. When the ellipsis alone is wider than \<open>maxWidth\<close> (and no text
  with the ellipsis measures less than the ellipsis), \<open>t\<close> is empty: the line is the ellipsis.
\<close>

theorem wrapText_truncation:
  "maxLines = Some m \<and> 0 < m \<and> m < int (length (greedyLines measureText text maxWidth)) \<longrightarrow>
     (\<exists>t k. wrapText measureText text maxWidth maxLines =
               Inr (take (nat m - 1) (greedyLines measureText text maxWidth)
                    @ [\<lparr>line_text = t @ ''...'', line_width = measureText (t @ ''...'')\<rparr>])
        \<and> length (take (nat m - 1) (greedyLines measureText text maxWidth)
                    @ [\<lparr>line_text = t @ ''...'', line_width = measureText (t @ ''...'')\<rparr>]) = nat m
        \<and> t = (dropLast ^^ k) (line_text (greedyLines measureText text maxWidth ! (nat m - 1)))
        \<and> (\<forall>j<k. maxWidth < measureText
                      ((dropLast ^^ j) (line_text (greedyLines measureText text maxWidth ! (nat m - 1)))
                       @ ''...'')
                 \<and> (dropLast ^^ j) (line_text (greedyLines measureText text maxWidth ! (nat m - 1))) \<noteq> [])
        \<and> (measureText (t @ ''...'') \<le> maxWidth \<or> t = [])
        \<and> ((\<forall>s. measureText ''...'' \<le> measureText (s @ ''...'')) \<and> maxWidth < measureText ''...''
             \<longrightarrow> t = []))"
proof
  let ?g = "greedyLines measureText text maxWidth"
  let ?orig = "line_text (?g ! (nat m - 1))"
  let ?t = "ellipsize measureText maxWidth ?orig"
  assume a: "maxLines = Some m \<and> 0 < m \<and> m < int (length ?g)"
  then have ml: "maxLines = Some m" and pos: "0 < m" and lt: "m < int (length ?g)" by simp_all
  obtain k where k: "?t = (dropLast ^^ k) ?orig"
      "\<forall>j<k. maxWidth < measureText ((dropLast ^^ j) ?orig @ ''...'') \<and> (dropLast ^^ j) ?orig \<noteq> []"
    using ellipsize_steps [of measureText maxWidth ?orig] by blast
  have c1: "wrapText measureText text maxWidth maxLines =
      Inr (take (nat m - 1) ?g @ [\<lparr>line_text = ?t @ ''...'', line_width = measureText (?t @ ''...'')\<rparr>])"
    unfolding ml by (rule wrapText_cut [OF pos lt])
  have c2: "length (take (nat m - 1) ?g @ [\<lparr>line_text = ?t @ ''...'', line_width = measureText (?t @ ''...'')\<rparr>]) = nat m"
    using pos lt by simp
  have c5: "measureText (?t @ ''...'') \<le> maxWidth \<or> ?t = []" by (rule ellipsize_fits)
  have c6: "(\<forall>s. measureText ''...'' \<le> measureText (s @ ''...'')) \<and> maxWidth < measureText ''...''
             \<longrightarrow> ?t = []"
    using ellipsize_too_narrow [of measureText maxWidth ?orig] by blast
  show "\<exists>t k. wrapText measureText text maxWidth maxLines =
               Inr (take (nat m - 1) ?g
                    @ [\<lparr>line_text = t @ ''...'', line_width = measureText (t @ ''...'')\<rparr>])
        \<and> length (take (nat m - 1) ?g
                    @ [\<lparr>line_text = t @ ''...'', line_width = measureText (t @ ''...'')\<rparr>]) = nat m
        \<and> t = (dropLast ^^ k) ?orig
        \<and> (\<forall>j<k. maxWidth < measureText ((dropLast ^^ j) ?orig @ ''...'') \<and> (dropLast ^^ j) ?orig \<noteq> [])
        \<and> (measureText (t @ ''...'') \<le> maxWidth \<or> t = [])
        \<and> ((\<forall>s. measureText ''...'' \<le> measureText (s @ ''...'')) \<and> maxWidth < measureText ''...''
             \<longrightarrow> t = [])"
    using c1 c2 k(1) k(2) c5 c6 by (intro exI [of _ ?t] exI [of _ k] conjI)
qed


lemmas wrap_eval = wrapText_def greedyLines_def joinWord_def monospace_def sliceTo_def js_index_def
  dropLast_def trimEnd_def isWhitespace_def Let_def truncates_def

text \<open>
  The claim as stated covers every \<open>maxLines\<close>. With one character one pixel wide,
  \<open>maxWidth = 2\<close> and \<open>maxLines = 1\<close>, the text \<open>a b\<close> wraps to two lines and is
  cut to one, whose text shrinks to nothing before the ellipsis fits: the line returned is
  \<open>...\<close>, three pixels wide, and no word of the input.
\<close>

theorem wrapText_line_widths_counterexample:
  "wrapText monospace ''a b'' 2 (Some 1) = Inr [\<lparr>line_text = ''...'', line_width = 3\<rparr>]
   \<and> split_space ''a b'' = [''a'', ''b'']
   \<and> greedyLines monospace ''a b'' 2
       = [\<lparr>line_text = ''a'', line_width = 1\<rparr>, \<lparr>line_text = ''b'', line_width = 1\<rparr>]"
  by (simp add: wrap_eval ellipsize.simps)

theorem wrapText_line_widths_witness:
  "wrapText monospace ''a  b extraordinarily c'' 3 None =
     Inr [\<lparr>line_text = ''a '', line_width = 2\<rparr>, \<lparr>line_text = ''b'', line_width = 1\<rparr>,
          \<lparr>line_text = ''extraordinarily'', line_width = 15\<rparr>,
          \<lparr>line_text = ''c'', line_width = 1\<rparr>]
   \<and> (\<forall>a b. monospace a \<le> monospace (a @ '' '' @ b) \<and> monospace b \<le> monospace (a @ '' '' @ b))
   \<and> \<not> truncates monospace ''a  b extraordinarily c'' 3 None
   \<and> ''extraordinarily'' \<in> set (split_space ''a  b extraordinarily c'')
   \<and> 3 < monospace ''extraordinarily''
   \<and> (\<exists>l \<in> set [\<lparr>line_text = ''a '', line_width = 2\<rparr>, \<lparr>line_text = ''b'', line_width = 1\<rparr>,
          \<lparr>line_text = ''extraordinarily'', line_width = 15\<rparr>,
          \<lparr>line_text = ''c'', line_width = 1\<rparr>]. line_text l = ''extraordinarily'')
   \<and> (line_width \<lparr>line_text = ''a '', line_width = 2\<rparr> \<le> 3
       \<or> line_text \<lparr>line_text = ''a '', line_width = 2\<rparr> \<in> set (split_space ''a  b extraordinarily c'')
       \<or> truncates monospace ''a  b extraordinarily c'' 3 None
          \<and> \<lparr>line_text = ''a '', line_width = 2\<rparr> = last [\<lparr>line_text = ''a '', line_width = 2\<rparr>, \<lparr>line_text = ''b'', line_width = 1\<rparr>,
          \<lparr>line_text = ''extraordinarily'', line_width = 15\<rparr>,
          \<lparr>line_text = ''c'', line_width = 1\<rparr>]
          \<and> line_text \<lparr>line_text = ''a '', line_width = 2\<rparr> = ''...'')"
proof -
  let ?T = "''a  b extraordinarily c''"
  let ?L = "[\<lparr>line_text = ''a '', line_width = 2\<rparr>, \<lparr>line_text = ''b'', line_width = 1\<rparr>,
          \<lparr>line_text = ''extraordinarily'', line_width = 15\<rparr>,
          \<lparr>line_text = ''c'', line_width = 1\<rparr>]"
  have ev: "wrapText monospace ?T 3 None = Inr ?L" by (simp add: wrap_eval)
  have wd: "\<forall>a b. monospace a \<le> monospace (a @ '' '' @ b) \<and> monospace b \<le> monospace (a @ '' '' @ b)"
    by (simp add: monospace_def)
  have nt: "\<not> truncates monospace ?T 3 None" by (simp add: truncates_def)
  have sp: "''extraordinarily'' \<in> set (split_space ?T)" by simp
  have wide: "3 < monospace ''extraordinarily''" by (simp add: monospace_def)
  note main = wrapText_line_widths [of monospace ?T 3 None ?L]
  have first: "\<lparr>line_text = ''a '', line_width = 2\<rparr> \<in> set ?L" by simp
  from main ev first have a: "line_width \<lparr>line_text = ''a '', line_width = 2\<rparr> \<le> 3
       \<or> line_text \<lparr>line_text = ''a '', line_width = 2\<rparr> \<in> set (split_space ?T)
       \<or> truncates monospace ?T 3 None
          \<and> \<lparr>line_text = ''a '', line_width = 2\<rparr> = last ?L
          \<and> line_text \<lparr>line_text = ''a '', line_width = 2\<rparr> = ''...''"
    by blast
  from main ev wd nt sp wide have b: "\<exists>l \<in> set ?L. line_text l = ''extraordinarily''"
    by blast
  show ?thesis using ev wd nt sp wide a b by (intro conjI)
qed

text \<open>
  The claim as stated covers \<open>maxLines = 0\<close>, which the guard \<open>maxLines && ...\<close> takes
  as no limit: the three lines of the greedy wrap are returned, not zero lines.
\<close>

theorem wrapText_truncation_counterexample:
  "wrapText monospace ''a b c'' 1 (Some 0) =
     Inr [\<lparr>line_text = ''a'', line_width = 1\<rparr>, \<lparr>line_text = ''b'', line_width = 1\<rparr>,
          \<lparr>line_text = ''c'', line_width = 1\<rparr>]
   \<and> length (greedyLines monospace ''a b c'' 1) = 3"
  by (simp add: wrap_eval)

theorem wrapText_truncation_witness:
  "(0::int) < 2
   \<and> 2 < int (length (greedyLines monospace ''the quick brown fox jumps over the lazy dog'' 10))
   \<and> wrapText monospace ''the quick brown fox jumps over the lazy dog'' 10 (Some 2) =
       Inr [\<lparr>line_text = ''the quick'', line_width = 9\<rparr>,
            \<lparr>line_text = ''brown f...'', line_width = 10\<rparr>]
   \<and> (\<exists>t k. wrapText monospace ''the quick brown fox jumps over the lazy dog'' 10 (Some 2) =
         Inr (take (nat 2 - 1) (greedyLines monospace ''the quick brown fox jumps over the lazy dog'' 10)
              @ [\<lparr>line_text = t @ ''...'', line_width = monospace (t @ ''...'')\<rparr>])
        \<and> t = (dropLast ^^ k) ''brown fox''
        \<and> (monospace (t @ ''...'') \<le> 10 \<or> t = []))"
proof -
  let ?T = "''the quick brown fox jumps over the lazy dog''"
  have g: "greedyLines monospace ?T 10 =
     [\<lparr>line_text = ''the quick'', line_width = 9\<rparr>, \<lparr>line_text = ''brown fox'', line_width = 9\<rparr>,
      \<lparr>line_text = ''jumps over'', line_width = 10\<rparr>, \<lparr>line_text = ''the lazy'', line_width = 8\<rparr>,
      \<lparr>line_text = ''dog'', line_width = 3\<rparr>]"
    by (simp add: wrap_eval)
  have len: "2 < int (length (greedyLines monospace ?T 10))" by (simp add: g)
  have ev: "wrapText monospace ?T 10 (Some 2) =
       Inr [\<lparr>line_text = ''the quick'', line_width = 9\<rparr>,
            \<lparr>line_text = ''brown f...'', line_width = 10\<rparr>]"
    by (simp add: wrapText_def g sliceTo_def js_index_def Let_def ellipsize.simps monospace_def
        dropLast_def trimEnd_def isWhitespace_def)
  have second: "line_text (greedyLines monospace ?T 10 ! (nat 2 - 1)) = ''brown fox''"
    by (simp add: g)
  from wrapText_truncation [of "Some 2" 2 monospace ?T 10] len
  obtain t k where
    "wrapText monospace ?T 10 (Some 2) =
         Inr (take (nat 2 - 1) (greedyLines monospace ?T 10)
              @ [\<lparr>line_text = t @ ''...'', line_width = monospace (t @ ''...'')\<rparr>])"
    "t = (dropLast ^^ k) (line_text (greedyLines monospace ?T 10 ! (nat 2 - 1)))"
    "monospace (t @ ''...'') \<le> 10 \<or> t = []"
    by auto
  then have "\<exists>t k. wrapText monospace ?T 10 (Some 2) =
         Inr (take (nat 2 - 1) (greedyLines monospace ?T 10)
              @ [\<lparr>line_text = t @ ''...'', line_width = monospace (t @ ''...'')\<rparr>])
        \<and> t = (dropLast ^^ k) ''brown fox''
        \<and> (monospace (t @ ''...'') \<le> 10 \<or> t = [])"
    unfolding second by blast
  then show ?thesis using len ev by simp
qed

subsection \<open>The frame compositor\<close>

lemma alphaStable_refl: "alphaStable c c"
  by (simp add: alphaStable_def)

lemma alphaStable_trans:
  assumes "alphaStable a b" "alphaStable b c"
  shows "alphaStable a c"
proof -
  from assms(1) obtain n1 where 1: "saved b = saved a"
    "globalAlpha (drawState b) = globalAlpha (drawState a)" "painted b = painted a @ n1"
    "\<forall>e \<in> set n1. globalAlpha (snd e) = globalAlpha (drawState a)"
    unfolding alphaStable_def by blast
  from assms(2) obtain n2 where 2: "saved c = saved b"
    "globalAlpha (drawState c) = globalAlpha (drawState b)" "painted c = painted b @ n2"
    "\<forall>e \<in> set n2. globalAlpha (snd e) = globalAlpha (drawState b)"
    unfolding alphaStable_def by blast
  have "painted c = painted a @ (n1 @ n2)" using 1(3) 2(3) by simp
  moreover have "\<forall>e \<in> set (n1 @ n2). globalAlpha (snd e) = globalAlpha (drawState a)"
    using 1(2,4) 2(4) by auto
  ultimately show ?thesis
    unfolding alphaStable_def using 1(1,2) 2(1,2) by (intro conjI exI [of _ "n1 @ n2"]) simp_all
qed

lemma alphaStable_paint: "alphaStable c (ctx_paint p c)"
  by (simp add: alphaStable_def ctx_paint_def)

lemma alphaStable_set:
  "globalAlpha (f (drawState c)) = globalAlpha (drawState c) \<Longrightarrow> alphaStable c (ctx_set f c)"
  by (simp add: alphaStable_def ctx_set_def)

lemma alphaStable_path: "alphaStable c (roundedRect c x y w h r)"
  by (simp add: alphaStable_def roundedRect_def)

lemma alphaStable_fillRectWith: "alphaStable c (fillRectWith style x y w h c)"
  by (simp add: alphaStable_def fillRectWith_def ctx_paint_def ctx_set_def)

lemma alphaStable_cover: "alphaStable c (drawImageCover c img x y w h r)"
  by (simp add: alphaStable_def drawImageCover_def Let_def ctx_save_def ctx_restore_def
      ctx_paint_def ctx_clip_def ctx_set_def roundedRect_def)

lemma alphaStable_contain: "alphaStable c (drawImageContain c img x y w h r)"
  by (simp add: alphaStable_def drawImageContain_def Let_def ctx_save_def ctx_restore_def
      ctx_paint_def ctx_clip_def ctx_set_def roundedRect_def)

lemma alphaStable_drawRect: "alphaStable c (drawRect c layer colorVars)"
  by (simp add: alphaStable_def drawRect_def Let_def ctx_paint_def ctx_set_def ctx_fill_def
      ctx_stroke_def roundedRect_def split: option.splits)

lemma alphaStable_drawAccentBar: "alphaStable c (drawAccentBar c layer colorVars)"
  by (simp add: drawAccentBar_def alphaStable_fillRectWith)


lemma bracket_restore:
  assumes "alphaStable (ctx_set f (ctx_save c)) c2"
  shows "saved (ctx_restore c2) = saved c
    \<and> drawState (ctx_restore c2) = drawState c
    \<and> (\<exists>new. painted (ctx_restore c2) = painted c @ new
          \<and> (\<forall>e \<in> set new. globalAlpha (snd e) = globalAlpha (f (drawState c))))"
proof -
  from assms obtain new where
    s: "saved c2 = drawState c # saved c"
    and p: "painted c2 = painted c @ new"
    and a: "\<forall>e \<in> set new. globalAlpha (snd e) = globalAlpha (f (drawState c))"
    unfolding alphaStable_def by (auto simp: ctx_set_def ctx_save_def)
  show ?thesis
    using s p a by (simp add: ctx_restore_def)
qed

lemma alphaStable_drawImage: "alphaStable c (drawImage c layer userImages)"
proof (cases "js_index userImages (image_index layer)")
  case None
  then show ?thesis by (simp add: drawImage_def alphaStable_refl)
next
  case (Some img)
  let ?x = "layer_x layer" and ?y = "layer_y layer" and ?w = "layer_width layer"
    and ?h = "layer_height layer" and ?r = "or_zero (borderRadius layer)"
  have fit: "alphaStable d (if image_fit layer = Cover then drawImageCover d img ?x ?y ?w ?h ?r
                            else drawImageContain d img ?x ?y ?w ?h ?r)" for d
    by (simp add: alphaStable_cover alphaStable_contain)
  show ?thesis
  proof (cases "shadow layer")
    case None
    then show ?thesis using Some fit [of c] by (simp add: drawImage_def Let_def)
  next
    case (Some sh)
    let ?f = "\<lambda>s. s\<lparr>shadowBlur := blur sh, shadowOffsetX := offsetX sh,
                       shadowOffsetY := offsetY sh, shadowColor := shadow_color sh\<rparr>"
    let ?c1 = "ctx_set ?f (ctx_save c)"
    let ?c2 = "if image_fit layer = Cover then drawImageCover ?c1 img ?x ?y ?w ?h ?r
               else drawImageContain ?c1 img ?x ?y ?w ?h ?r"
    have r: "drawImage c layer userImages = ctx_restore ?c2"
      using \<open>js_index userImages (image_index layer) = Some img\<close> Some
      by (simp add: drawImage_def Let_def)
    have "alphaStable ?c1 ?c2" by (rule fit)
    from bracket_restore [OF this] show ?thesis
      unfolding r alphaStable_def by simp
  qed
qed

lemma alphaStable_drawLogo: "alphaStable c (drawLogo c layer logoImage)"
proof (cases logoImage)
  case None
  then show ?thesis by (simp add: drawLogo_def alphaStable_refl)
next
  case (Some img)
  let ?c1 = "case logo_background layer of None \<Rightarrow> c
             | Some bg \<Rightarrow> if bg \<noteq> [] then
                 fillRectWith (Colour bg) (layer_x layer) (layer_y layer)
                   (layer_width layer) (layer_height layer) c
               else c"
  have 1: "alphaStable c ?c1"
    by (simp add: alphaStable_refl alphaStable_fillRectWith split: option.splits)
  have 2: "alphaStable ?c1 (drawLogo c layer logoImage)"
    using Some by (simp add: drawLogo_def Let_def alphaStable_cover alphaStable_contain)
  show ?thesis using 1 2 by (rule alphaStable_trans)
qed

lemma alphaStable_spacing: "alphaStable c (drawTextWithSpacing host c s x y sp)"
proof (induction s arbitrary: c x)
  case Nil
  then show ?case by (simp add: alphaStable_refl)
next
  case (Cons ch chs)
  have "alphaStable c (ctx_paint (FillText [ch] x y) c)" by (rule alphaStable_paint)
  moreover have "alphaStable (ctx_paint (FillText [ch] x y) c)
      (drawTextWithSpacing host (ctx_paint (FillText [ch] x y) c) chs
         (x + host_measureText host (font (drawState c)) [ch] + sp) y sp)"
    by (rule Cons.IH)
  ultimately show ?case by (simp add: alphaStable_trans)
qed

lemma alphaStable_drawLines:
  "alphaStable c (drawLines host c layer pad startY lineSpacing i ls)"
proof (induction ls arbitrary: c i)
  case Nil
  then show ?case by (simp add: alphaStable_refl)
next
  case (Cons line rest)
  let ?c1 = "case letterSpacing layer of
               None \<Rightarrow> ctx_paint (FillText (line_text line) (lineX layer pad line)
                          (startY + real i * lineSpacing)) c
             | Some sp \<Rightarrow>
                 if sp \<noteq> 0 then drawTextWithSpacing host c (line_text line) (lineX layer pad line)
                                   (startY + real i * lineSpacing) sp
                 else ctx_paint (FillText (line_text line) (lineX layer pad line)
                        (startY + real i * lineSpacing)) c"
  have 1: "alphaStable c ?c1"
    by (simp add: alphaStable_paint alphaStable_spacing split: option.splits)
  have 2: "alphaStable ?c1 (drawLines host ?c1 layer pad startY lineSpacing (Suc i) rest)"
    by (rule Cons.IH)
  have "drawLines host c layer pad startY lineSpacing i (line # rest)
      = drawLines host ?c1 layer pad startY lineSpacing (Suc i) rest"
    by (simp add: Let_def)
  then show ?case using alphaStable_trans [OF 1 2] by simp
qed

lemma alphaStable_drawText:
  "drawText host c layer variables colorVars = Returns c' \<or>
   drawText host c layer variables colorVars = Throws e c' \<Longrightarrow> alphaStable c c'"
proof -
  assume r: "drawText host c layer variables colorVars = Returns c' \<or>
   drawText host c layer variables colorVars = Throws e c'"
  let ?resolved = "applyTextTransform host (resolveVariables (content layer) variables)
                       (textTransform layer)"
  show ?thesis
  proof (cases "?resolved = []")
    case True
    then have "drawText host c layer variables colorVars = Returns c"
      by (simp add: drawText_def Let_def)
    then show ?thesis using r by (auto simp: alphaStable_refl)
  next
    case False
    let ?fontStr = "getFontString host (fontSize layer) (fontWeight layer) (fontFamily layer)"
    let ?c1 = "ctx_set (\<lambda>s. s\<lparr>font := ?fontStr,
                 fillStyle := styleOf (resolveColor (text_color layer) colorVars),
                 textBaseline := ''top''\<rparr>) c"
    have 1: "alphaStable c ?c1" by (rule alphaStable_set) simp
    show ?thesis
    proof (cases "wrapText (host_measureText host ?fontStr) ?resolved
                    (layer_width layer - or_zero (padding layer) * 2) (text_maxLines layer)")
      case (Inl err)
      then have "drawText host c layer variables colorVars = Throws err ?c1"
        using False by (simp add: drawText_def Let_def)
      then show ?thesis using r 1 by auto
    next
      case (Inr ls)
      then obtain startY where
        "drawText host c layer variables colorVars =
           Returns (drawLines host ?c1 layer (or_zero (padding layer)) startY
                      (fontSize layer * or_number (lineHeight layer) 1.3) 0 ls)"
        using False by (simp add: drawText_def Let_def)
      then have "c' = drawLines host ?c1 layer (or_zero (padding layer)) startY
                      (fontSize layer * or_number (lineHeight layer) 1.3) 0 ls"
        using r by auto
      then show ?thesis
        using alphaStable_trans [OF 1 alphaStable_drawLines] by simp
    qed
  qed
qed

lemma alphaStable_drawVariant:
  assumes "drawVariant host c layer variables colorVars userImages logoImage = Returns c' \<or>
   drawVariant host c layer variables colorVars userImages logoImage = Throws e c'"
  shows "alphaStable c c'"
proof (cases layer)
  case (Text l)
  then show ?thesis
    using assms alphaStable_drawText [of host c l variables colorVars c' e]
    by (simp add: drawVariant_def)
next
  case (Image l)
  then show ?thesis using assms by (auto simp: drawVariant_def alphaStable_drawImage)
next
  case (Rect l)
  then show ?thesis using assms by (auto simp: drawVariant_def alphaStable_drawRect)
next
  case (Logo l)
  then show ?thesis using assms by (auto simp: drawVariant_def alphaStable_drawLogo)
next
  case (AccentBar l)
  then show ?thesis using assms by (auto simp: drawVariant_def alphaStable_drawAccentBar)
qed


lemma wrapText_returns:
  assumes "case maxLines of None \<Rightarrow> True | Some m \<Rightarrow> 0 \<le> m"
  shows "\<exists>ls. wrapText measureText text maxWidth maxLines = Inr ls"
proof (cases "truncates measureText text maxWidth maxLines")
  case False
  then show ?thesis by (simp add: wrapText_plain)
next
  case True
  then obtain m where m: "maxLines = Some m" "m \<noteq> 0"
    "m < int (length (greedyLines measureText text maxWidth))"
    by (auto simp: truncates_def split: option.splits)
  then have "0 < m" using assms by simp
  then show ?thesis using wrapText_cut [OF _ m(3)] m(1) by simp
qed

lemma drawText_returns:
  assumes "case text_maxLines layer of None \<Rightarrow> True | Some m \<Rightarrow> 0 \<le> m"
  shows "\<exists>c'. drawText host c layer variables colorVars = Returns c'"
proof -
  let ?resolved = "applyTextTransform host (resolveVariables (content layer) variables)
                       (textTransform layer)"
  let ?fontStr = "getFontString host (fontSize layer) (fontWeight layer) (fontFamily layer)"
  obtain ls where "wrapText (host_measureText host ?fontStr) ?resolved
                    (layer_width layer - or_zero (padding layer) * 2) (text_maxLines layer) = Inr ls"
    using wrapText_returns [OF assms] by blast
  then show ?thesis by (simp add: drawText_def Let_def)
qed

lemma drawVariant_returns:
  assumes "\<not> textCanThrow layer"
  shows "\<exists>c'. drawVariant host c layer variables colorVars userImages logoImage = Returns c'"
proof (cases layer)
  case (Text l)
  then have "case text_maxLines l of None \<Rightarrow> True | Some m \<Rightarrow> 0 \<le> m"
    using assms by (auto simp: textCanThrow_def split: option.splits)
  then show ?thesis using Text drawText_returns by (simp add: drawVariant_def)
qed (simp_all add: drawVariant_def)

lemma drawLayer_returns:
  assumes "\<not> textCanThrow layer"
  shows "\<exists>c'. drawLayer host c layer variables colorVars userImages logoImage = Returns c'"
proof -
  let ?c1 = "case layerOpacity layer of None \<Rightarrow> c
             | Some a \<Rightarrow> if a < 1 then ctx_set (\<lambda>s. s\<lparr>globalAlpha := a\<rparr>) (ctx_save c) else c"
  obtain c2 where "drawVariant host ?c1 layer variables colorVars userImages logoImage = Returns c2"
    using drawVariant_returns [OF assms] by blast
  then show ?thesis by (simp add: drawLayer_def Let_def)
qed

text \<open>
  C3 (as amended). For a layer with an opacity below 1, \<open>drawLayer\<close> saves the state of
  the context and sets \<open>globalAlpha\<close> to the opacity. When the draw of the variant returns
  (also by its early return for a missing image), the saved state is restored: the drawing
  state and the stack of saved states are what they were before the layer, and everything
  the layer painted was painted under the opacity. When the draw of the variant throws, the
  error leaves \<open>drawLayer\<close> with no restore: the saved state is still on the stack and
  \<open>globalAlpha\<close> is still the opacity. The draw returns for every layer but a text layer
  with a negative \<open>maxLines\<close>.
\<close>

theorem drawLayer_opacity_scope:
  "layerOpacity layer = Some a \<and> a < 1 \<longrightarrow>
     (\<forall>c'. drawLayer host c layer variables colorVars userImages logoImage = Returns c' \<longrightarrow>
         drawState c' = drawState c \<and> saved c' = saved c
         \<and> (\<exists>new. painted c' = painted c @ new \<and> (\<forall>e \<in> set new. globalAlpha (snd e) = a)))
     \<and> (\<forall>e c'. drawLayer host c layer variables colorVars userImages logoImage = Throws e c' \<longrightarrow>
         saved c' = drawState c # saved c \<and> globalAlpha (drawState c') = a)
     \<and> (\<not> textCanThrow layer \<longrightarrow>
         (\<exists>c'. drawLayer host c layer variables colorVars userImages logoImage = Returns c'))"
proof (intro impI conjI allI)
  assume o: "layerOpacity layer = Some a \<and> a < 1"
  let ?f = "\<lambda>s. s\<lparr>globalAlpha := a\<rparr>"
  let ?c1 = "ctx_set ?f (ctx_save c)"
  have tr: "translucent layer" using o by (simp add: translucent_def)
  have dl: "drawLayer host c layer variables colorVars userImages logoImage =
      (case drawVariant host ?c1 layer variables colorVars userImages logoImage of
         Throws e c2 \<Rightarrow> Throws e c2
       | Returns c2 \<Rightarrow> Returns (ctx_restore c2))"
    using o tr by (simp add: drawLayer_def Let_def split: Completion.splits)
  {
    fix c' assume r: "drawLayer host c layer variables colorVars userImages logoImage = Returns c'"
    then obtain c2 where v: "drawVariant host ?c1 layer variables colorVars userImages logoImage = Returns c2"
      and c': "c' = ctx_restore c2"
      unfolding dl by (auto split: Completion.splits)
    have "alphaStable ?c1 c2" using v alphaStable_drawVariant by blast
    from bracket_restore [OF this]
    have "drawState c' = drawState c \<and> saved c' = saved c
         \<and> (\<exists>new. painted c' = painted c @ new \<and> (\<forall>e \<in> set new. globalAlpha (snd e) = a))"
      unfolding c' by simp
  }
  note ret = this
  show "drawState c' = drawState c"
    if "drawLayer host c layer variables colorVars userImages logoImage = Returns c'" for c'
    using ret [OF that] by blast
  show "saved c' = saved c"
    if "drawLayer host c layer variables colorVars userImages logoImage = Returns c'" for c'
    using ret [OF that] by blast
  show "\<exists>new. painted c' = painted c @ new \<and> (\<forall>e \<in> set new. globalAlpha (snd e) = a)"
    if "drawLayer host c layer variables colorVars userImages logoImage = Returns c'" for c'
    using ret [OF that] by blast
  {
    fix e c' assume t: "drawLayer host c layer variables colorVars userImages logoImage = Throws e c'"
    then have v: "drawVariant host ?c1 layer variables colorVars userImages logoImage = Throws e c'"
      unfolding dl by (auto split: Completion.splits)
    have "alphaStable ?c1 c'" using v alphaStable_drawVariant by blast
    then have "saved c' = drawState c # saved c \<and> globalAlpha (drawState c') = a"
      by (simp add: alphaStable_def ctx_set_def ctx_save_def)
  }
  note thr = this
  show "saved c' = drawState c # saved c"
    if "drawLayer host c layer variables colorVars userImages logoImage = Throws e c'" for e c'
    using thr [OF that] by blast
  show "globalAlpha (drawState c') = a"
    if "drawLayer host c layer variables colorVars userImages logoImage = Throws e c'" for e c'
    using thr [OF that] by blast
  show "\<exists>c'. drawLayer host c layer variables colorVars userImages logoImage = Returns c'"
    if "\<not> textCanThrow layer"
    using that by (rule drawLayer_returns)
qed


lemmas render_eval = drawLayer_def drawVariant_def drawText_def layerOpacity_def translucent_def
  sampleText_def sampleBar_def sampleImageLayer_def sampleHost_def sampleVariables_def
  buildColorVariables_def createCanvas_def initialDrawState_def ctx_set_def ctx_save_def
  ctx_restore_def ctx_paint_def applyTextTransform_def getFontString_def weightName_def
  or_zero_def or_number_def placeholderAt_def startsWith_def endsWith_def isWordChar_def
  replacement_def variableValue_def resolveColor_def colourOr_def styleOf_def or_default_def slice_between_def slice_from_def
  trim_def trimStart_def trimEnd_def isWhitespace_def drawAccentBar_def fillRectWith_def
  drawImage_def js_index_def lineX_def Let_def

text \<open>
  The claim as stated has the state restored also when the draw of the variant ends with an
  error. A text layer with opacity 0.5 and \<open>maxLines = -1\<close> makes \<open>wrapText\<close> throw a
  \<open>TypeError\<close>; \<open>drawLayer\<close> has no \<open>finally\<close>, so the context is left with
  \<open>globalAlpha = 0.5\<close> and one saved state on a stack that was empty.
\<close>

theorem drawLayer_opacity_scope_counterexample:
  "drawLayer sampleHost createCanvas (Text (sampleText (Some (1 / 2)) (Some (- 1)))) sampleVariables
     (buildColorVariables sampleVariables) [] None =
   Throws (TypeError ''lastLine is undefined'')
     \<lparr>drawState = initialDrawState\<lparr>globalAlpha := 1 / 2, fillStyle := Colour ''#FFFFFF'',
                    font := ''bold 48px '' @ [CHR 0x22] @ ''Inter'' @ [CHR 0x22],
                    textBaseline := ''top''\<rparr>,
      saved = [initialDrawState], currentPath = [], painted = []\<rparr>
   \<and> drawState createCanvas = initialDrawState
   \<and> globalAlpha initialDrawState = 1
   \<and> saved createCanvas = []"
proof -
  have n: "showNat 48 = ''48''" by (simp add: showNat.simps)
  have w: "wrapText (\<lambda>s. 10 * real (length s)) ''Sale'' 400 (Some (- 1))
      = Inl (TypeError ''lastLine is undefined'')"
    by (rule wrapText_negative) simp
  show ?thesis
    by (simp add: render_eval n w)
qed


theorem drawLayer_opacity_scope_witness:
  "layerOpacity (AccentBar (sampleBar (Some (1 / 2)))) = Some (1 / 2) \<and> (1 / 2 :: real) < 1
   \<and> \<not> textCanThrow (AccentBar (sampleBar (Some (1 / 2))))
   \<and> drawLayer sampleHost createCanvas (AccentBar (sampleBar (Some (1 / 2)))) sampleVariables
         (buildColorVariables sampleVariables) [] None =
       Returns (createCanvas\<lparr>painted :=
         [(FillRect 0 1000 1080 80,
           initialDrawState\<lparr>globalAlpha := 1 / 2, fillStyle := Colour ''#235BAA''\<rparr>)]\<rparr>)
   \<and> (\<exists>c'. drawLayer sampleHost createCanvas (AccentBar (sampleBar (Some (1 / 2)))) sampleVariables
         (buildColorVariables sampleVariables) [] None = Returns c'
        \<and> drawState c' = drawState createCanvas \<and> saved c' = saved createCanvas
        \<and> (\<exists>new. painted c' = painted createCanvas @ new
               \<and> list_all (\<lambda>e. globalAlpha (snd e) = 1 / 2) new))"
proof -
  let ?L = "AccentBar (sampleBar (Some (1 / 2)))"
  have o: "layerOpacity ?L = Some (1 / 2) \<and> (1 / 2 :: real) < 1"
    by (simp add: layerOpacity_def sampleBar_def)
  have nt: "\<not> textCanThrow ?L" by (simp add: textCanThrow_def)
  have ev: "drawLayer sampleHost createCanvas ?L sampleVariables
         (buildColorVariables sampleVariables) [] None =
       Returns (createCanvas\<lparr>painted :=
         [(FillRect 0 1000 1080 80,
           initialDrawState\<lparr>globalAlpha := 1 / 2, fillStyle := Colour ''#235BAA''\<rparr>)]\<rparr>)"
    by (simp add: render_eval)
  note main = drawLayer_opacity_scope [of ?L "1 / 2" sampleHost createCanvas sampleVariables
      "buildColorVariables sampleVariables" "[]" None]
  from main o nt obtain c' where
    r: "drawLayer sampleHost createCanvas ?L sampleVariables
         (buildColorVariables sampleVariables) [] None = Returns c'"
    by blast
  from main o r have "drawState c' = drawState createCanvas \<and> saved c' = saved createCanvas
        \<and> (\<exists>new. painted c' = painted createCanvas @ new
               \<and> (\<forall>e \<in> set new. globalAlpha (snd e) = 1 / 2))"
    by blast
  then have "drawState c' = drawState createCanvas \<and> saved c' = saved createCanvas
        \<and> (\<exists>new. painted c' = painted createCanvas @ new
               \<and> list_all (\<lambda>e. globalAlpha (snd e) = 1 / 2) new)"
    by (simp add: list_all_iff)
  with r have ex: "\<exists>c'. drawLayer sampleHost createCanvas ?L sampleVariables
         (buildColorVariables sampleVariables) [] None = Returns c'
        \<and> drawState c' = drawState createCanvas \<and> saved c' = saved createCanvas
        \<and> (\<exists>new. painted c' = painted createCanvas @ new
               \<and> list_all (\<lambda>e. globalAlpha (snd e) = 1 / 2) new)"
    by blast
  show ?thesis using o nt ev ex by (intro conjI) simp_all
qed









subsection \<open>The transition chain\<close>

lemma js_index_nat: "i < length xs \<Longrightarrow> js_index xs (int i) = Some (xs ! i)"
  by (simp add: js_index_def)

lemma running_Suc:
  "foldl f a [1..<Suc (Suc i)] = f (foldl f a [1..<Suc i]) (Suc i)"
  by simp

lemma xfadeChain_upt:
  "b \<le> length ds \<Longrightarrow>
   a = 0 \<or> cum = foldl (\<lambda>acc k. double_add acc (double_sub (ds ! k) t)) (double_sub (ds ! 0) t) [1..<a] \<Longrightarrow>
   xfadeChain n ds ty t [a..<b] cum =
     map (\<lambda>i. \<lparr>inputA = (if i = 0 then RawFrame 0 else Chained i), inputB = RawFrame (i + 1),
                xfade_transition = ty, xfade_duration = t,
                xfade_offset = foldl (\<lambda>acc k. double_add acc (double_sub (ds ! k) t))
                                 (double_sub (ds ! 0) t) [1..<Suc i],
                formatSuffix = (int i = int n - 2),
                outputLabel = (if int i = int n - 2 then Final else Chained (i + 1))\<rparr>)
       [a..<b]"
proof (induction "b - a" arbitrary: a cum)
  case 0
  then show ?case by simp
next
  case (Suc m)
  let ?f = "\<lambda>acc k. double_add acc (double_sub (ds ! k) t)"
  let ?run = "\<lambda>i. foldl ?f (double_sub (ds ! 0) t) [1..<Suc i]"
  have ab: "a < b" using Suc.hyps(2) by simp
  have al: "a < length ds" using ab Suc.prems(1) by simp
  let ?off = "if a = 0 then double_sub (numberOf (js_index ds 0)) t
              else double_add cum (double_sub (numberOf (js_index ds (int a))) t)"
  have off: "?off = ?run a"
  proof (cases "a = 0")
    case True
    have "js_index ds 0 = Some (ds ! 0)" using js_index_nat [OF al] True by simp
    then show ?thesis using True by (simp add: numberOf_def)
  next
    case False
    then have c: "cum = foldl ?f (double_sub (ds ! 0) t) [1..<a]" using Suc.prems(2) by simp
    obtain p where p: "a = Suc p" using False by (cases a) simp_all
    have "?run a = ?f (foldl ?f (double_sub (ds ! 0) t) [1..<a]) a"
      unfolding p by (rule running_Suc)
    then show ?thesis using False c js_index_nat [OF al] by (simp add: numberOf_def)
  qed
  have k: "m = b - Suc a" using Suc.hyps(2) by simp
  have rest: "xfadeChain n ds ty t [Suc a..<b] ?off =
     map (\<lambda>i. \<lparr>inputA = (if i = 0 then RawFrame 0 else Chained i), inputB = RawFrame (i + 1),
                xfade_transition = ty, xfade_duration = t,
                xfade_offset = ?run i,
                formatSuffix = (int i = int n - 2),
                outputLabel = (if int i = int n - 2 then Final else Chained (i + 1))\<rparr>)
       [Suc a..<b]"
    by (rule Suc.hyps(1) [OF k Suc.prems(1)]) (simp only: off, simp)
  have u: "[a..<b] = a # [Suc a..<b]" using ab by (rule upt_conv_Cons)
  have "xfadeChain n ds ty t (a # [Suc a..<b]) cum =
      \<lparr>inputA = (if a = 0 then RawFrame 0 else Chained a), inputB = RawFrame (a + 1),
       xfade_transition = ty, xfade_duration = t, xfade_offset = ?off,
       formatSuffix = (int a = int n - 2),
       outputLabel = (if int a = int n - 2 then Final else Chained (a + 1))\<rparr>
      # xfadeChain n ds ty t [Suc a..<b] ?off"
    by (simp add: Let_def)
  then show ?case unfolding u by (simp only: off rest [unfolded off] list.map)
qed

lemma filterParts_chain:
  assumes n: "2 \<le> length (framePaths opts)"
    and l: "length (frameDurations opts) = length (framePaths opts)"
  shows "filterParts opts =
     map (\<lambda>i. \<lparr>inputA = (if i = 0 then RawFrame 0 else Chained i), inputB = RawFrame (i + 1),
                xfade_transition = transitionType opts, xfade_duration = transitionDuration opts,
                xfade_offset =
                  foldl (\<lambda>acc k. double_add acc
                           (double_sub (frameDurations opts ! k) (transitionDuration opts)))
                    (double_sub (frameDurations opts ! 0) (transitionDuration opts)) [1..<Suc i],
                formatSuffix = (Suc i = length (framePaths opts) - 1),
                outputLabel = (if Suc i = length (framePaths opts) - 1 then Final
                               else Chained (i + 1))\<rparr>)
       [0..<length (framePaths opts) - 1]"
proof (cases "length (framePaths opts) = 2")
  case True
  have "js_index (frameDurations opts) 0 = Some (frameDurations opts ! 0)"
    using js_index_nat [of 0 "frameDurations opts"] l True by simp
  then show ?thesis using True by (simp add: filterParts_def numberOf_def)
next
  case False
  have e: "\<And>i. (int i = int (length (framePaths opts)) - 2) = (Suc i = length (framePaths opts) - 1)"
    using n by auto
  have "length (framePaths opts) - 1 \<le> length (frameDurations opts)" using l by simp
  from xfadeChain_upt [OF this, of 0 "Finite 0" "transitionDuration opts"
      "length (framePaths opts)" "transitionType opts"]
  show ?thesis using False by (simp add: filterParts_def Let_def e)
qed

lemma running_exact:
  assumes t: "t = Finite b"
  shows "i < length ds \<Longrightarrow>
   (\<forall>k \<le> i. ds ! k = Finite (finiteValue (ds ! k))
           \<and> representable (finiteValue (ds ! k) - b)
           \<and> representable (sum_list (map finiteValue (take (k + 1) ds)) - real (k + 1) * b)) \<Longrightarrow>
   foldl (\<lambda>acc k. double_add acc (double_sub (ds ! k) t)) (double_sub (ds ! 0) t) [1..<Suc i]
     = Finite (sum_list (map finiteValue (take (i + 1) ds)) - real (i + 1) * b)"
proof (induction i)
  case 0
  then obtain x xs where ds: "ds = x # xs" by (cases ds) simp_all
  have f: "x = Finite (finiteValue x)" and r: "representable (finiteValue x - b)"
    using "0.prems"(2) ds by simp_all
  have "double_sub x t = roundDouble (finiteValue x - b)"
    by (subst f) (simp add: double_sub_def t)
  then show ?case using r by (simp add: ds representable_def)
next
  case (Suc i)
  let ?f = "\<lambda>acc k. double_add acc (double_sub (ds ! k) t)"
  let ?S = "\<lambda>k. sum_list (map finiteValue (take (k + 1) ds)) - real (k + 1) * b"
  have il: "i < length ds" using Suc.prems(1) by simp
  have prev: "foldl ?f (double_sub (ds ! 0) t) [1..<Suc i] = Finite (?S i)"
    using Suc.IH [OF il] Suc.prems(2) by simp
  have f: "ds ! Suc i = Finite (finiteValue (ds ! Suc i))"
    and r: "representable (finiteValue (ds ! Suc i) - b)"
    and s: "representable (?S (Suc i))"
    using Suc.prems(2) by blast+
  have d: "double_sub (ds ! Suc i) t = Finite (finiteValue (ds ! Suc i) - b)"
  proof -
    have "double_sub (ds ! Suc i) t = roundDouble (finiteValue (ds ! Suc i) - b)"
      by (subst f) (simp add: double_sub_def t)
    then show ?thesis using r by (simp add: representable_def)
  qed
  have "take (Suc i + 1) ds = take (i + 1) ds @ [ds ! Suc i]"
    using Suc.prems(1) by (simp add: take_Suc_conv_app_nth)
  then have step: "?S (Suc i) = ?S i + (finiteValue (ds ! Suc i) - b)"
    by (simp add: algebra_simps)
  have "foldl ?f (double_sub (ds ! 0) t) [1..<Suc (Suc i)]
          = double_add (Finite (?S i)) (Finite (finiteValue (ds ! Suc i) - b))"
    by (simp only: running_Suc prev d)
  also have "\<dots> = roundDouble (?S (Suc i))" by (simp only: double_add.simps step)
  also have "\<dots> = Finite (?S (Suc i))" using s by (simp only: representable_def)
  finally show ?case .
qed

text \<open>
  Claim C4 (as amended). A template has \<open>N \<ge> 2\<close> frames, each rendered to a file. The hold
  time \<open>d\<^sub>k\<close> of frame \<open>k\<close> is its own duration, or 3000 ms where it has none or has 0,
  divided by 1000; the transition time \<open>t\<close> is the template's, or 800 ms where it has none
  or has 0, divided by 1000; both are doubles. Then the filter graph handed to the encoder
  has exactly \<open>N - 1\<close> stages; stage \<open>i\<close> reads frame 0 when \<open>i = 0\<close> and the output label of
  stage \<open>i - 1\<close> otherwise, and the raw frame \<open>i + 1\<close>; it lasts \<open>t\<close>, and its offset is the
  running sum \<open>(\<dots>((d\<^sub>0 - t) + (d\<^sub>1 - t)) + \<dots>) + (d\<^sub>i - t)\<close> in double arithmetic, each
  difference and each sum rounded. Where the numbers are finite and no difference and no
  partial sum is rounded, that is \<open>d\<^sub>0 + \<dots> + d\<^sub>i - (i + 1) t\<close>. The last stage, and only the
  last, carries the pixel format and writes the final label. The case of two frames, which
  the source treats apart, is the case \<open>N = 2\<close> of the same formula.
\<close>

theorem xfade_filter_chain:
  "2 \<le> length (frames tmpl) \<and> length paths = length (frames tmpl) \<longrightarrow>
   (let N = length (frames tmpl);
        d = map (\<lambda>f. divideBy (case durationMs f of None \<Rightarrow> Finite 3000
                                 | Some ms \<Rightarrow> if ms = Finite 0 \<or> ms = NaN then Finite 3000 else ms)
                       1000) (frames tmpl);
        t = divideBy (case transition tmpl of None \<Rightarrow> Finite 800
                      | Some tr \<Rightarrow> if transition_durationMs tr = Finite 0
                                      \<or> transition_durationMs tr = NaN
                                   then Finite 800 else transition_durationMs tr) 1000;
        parts = filterParts (xfadeOptions enc tmpl paths)
    in length parts = N - 1
       \<and> (\<forall>i < N - 1.
            inputA (parts ! i) = (if i = 0 then RawFrame 0 else outputLabel (parts ! (i - 1)))
          \<and> inputB (parts ! i) = RawFrame (i + 1)
          \<and> xfade_duration (parts ! i) = t
          \<and> xfade_offset (parts ! i)
              = foldl (\<lambda>acc k. double_add acc (double_sub (d ! k) t)) (double_sub (d ! 0) t)
                  [1..<i + 1]
          \<and> (t = Finite (finiteValue t)
              \<and> (\<forall>k \<le> i. d ! k = Finite (finiteValue (d ! k))
                     \<and> representable (finiteValue (d ! k) - finiteValue t)
                     \<and> representable (sum_list (map finiteValue (take (k + 1) d))
                                       - real (k + 1) * finiteValue t)) \<longrightarrow>
              xfade_offset (parts ! i)
                = Finite (sum_list (map finiteValue (take (i + 1) d))
                          - real (i + 1) * finiteValue t))
          \<and> formatSuffix (parts ! i) = (i = N - 2)
          \<and> outputLabel (parts ! i) = (if i = N - 2 then Final else Chained (i + 1))))"
proof (intro impI, elim conjE)
  assume n: "2 \<le> length (frames tmpl)" and l: "length paths = length (frames tmpl)"
  let ?opts = "xfadeOptions enc tmpl paths"
  let ?N = "length (frames tmpl)"
  let ?d = "map (\<lambda>f. divideBy (case durationMs f of None \<Rightarrow> Finite 3000
                                 | Some ms \<Rightarrow> if ms = Finite 0 \<or> ms = NaN then Finite 3000 else ms)
                       1000) (frames tmpl)"
  let ?t = "divideBy (case transition tmpl of None \<Rightarrow> Finite 800
                      | Some tr \<Rightarrow> if transition_durationMs tr = Finite 0
                                      \<or> transition_durationMs tr = NaN
                                   then Finite 800 else transition_durationMs tr) 1000"
  let ?run = "\<lambda>i. foldl (\<lambda>acc k. double_add acc (double_sub (?d ! k) ?t)) (double_sub (?d ! 0) ?t)
                      [1..<i + 1]"
  have fp: "framePaths ?opts = paths" by (simp add: xfadeOptions_def)
  have d: "frameDurations ?opts = ?d"
    by (simp add: xfadeOptions_def frameDurationSec_def or_double_def split: option.splits)
  have t: "transitionDuration ?opts = ?t"
    by (simp add: xfadeOptions_def transitionDurationSec_def or_double_def split: option.splits)
  have n': "2 \<le> length (framePaths ?opts)" using n l fp by simp
  have l': "length (frameDurations ?opts) = length (framePaths ?opts)"
    using l fp by (simp add: xfadeOptions_def frameDurationSec_def)
  note chain = filterParts_chain [OF n' l', unfolded fp l d t]
  have len: "length (filterParts ?opts) = ?N - 1" by (simp add: chain)
  have at: "\<And>i. i < ?N - 1 \<Longrightarrow> filterParts ?opts ! i =
       \<lparr>inputA = (if i = 0 then RawFrame 0 else Chained i), inputB = RawFrame (i + 1),
        xfade_transition = transitionType ?opts, xfade_duration = ?t,
        xfade_offset = ?run i,
        formatSuffix = (Suc i = ?N - 1),
        outputLabel = (if Suc i = ?N - 1 then Final else Chained (i + 1))\<rparr>"
    by (simp add: chain)
  have each: "inputA (filterParts ?opts ! i)
         = (if i = 0 then RawFrame 0 else outputLabel (filterParts ?opts ! (i - 1)))
     \<and> inputB (filterParts ?opts ! i) = RawFrame (i + 1)
     \<and> xfade_duration (filterParts ?opts ! i) = ?t
     \<and> xfade_offset (filterParts ?opts ! i) = ?run i
     \<and> (?t = Finite (finiteValue ?t)
              \<and> (\<forall>k \<le> i. ?d ! k = Finite (finiteValue (?d ! k))
                     \<and> representable (finiteValue (?d ! k) - finiteValue ?t)
                     \<and> representable (sum_list (map finiteValue (take (k + 1) ?d))
                                       - real (k + 1) * finiteValue ?t)) \<longrightarrow>
              xfade_offset (filterParts ?opts ! i)
                = Finite (sum_list (map finiteValue (take (i + 1) ?d))
                          - real (i + 1) * finiteValue ?t))
     \<and> formatSuffix (filterParts ?opts ! i) = (i = ?N - 2)
     \<and> outputLabel (filterParts ?opts ! i) = (if i = ?N - 2 then Final else Chained (i + 1))"
    if i: "i < ?N - 1" for i
  proof -
    have e: "(Suc i = ?N - 1) = (i = ?N - 2)" using n by auto
    have off: "xfade_offset (filterParts ?opts ! i) = ?run i" using at [OF i] by simp
    have a: "inputA (filterParts ?opts ! i)
         = (if i = 0 then RawFrame 0 else outputLabel (filterParts ?opts ! (i - 1)))"
    proof (cases "i = 0")
      case True
      then show ?thesis using at [OF i] by simp
    next
      case False
      have p: "i - 1 < ?N - 1" using i by simp
      have q: "Suc (i - 1) \<noteq> ?N - 1" using i False by simp
      have "outputLabel (filterParts ?opts ! (i - 1)) = Chained i"
        using at [OF p] q False by simp
      then show ?thesis using at [OF i] False by simp
    qed
    have x: "?t = Finite (finiteValue ?t)
              \<and> (\<forall>k \<le> i. ?d ! k = Finite (finiteValue (?d ! k))
                     \<and> representable (finiteValue (?d ! k) - finiteValue ?t)
                     \<and> representable (sum_list (map finiteValue (take (k + 1) ?d))
                                       - real (k + 1) * finiteValue ?t)) \<longrightarrow>
              xfade_offset (filterParts ?opts ! i)
                = Finite (sum_list (map finiteValue (take (i + 1) ?d))
                          - real (i + 1) * finiteValue ?t)"
    proof
      assume h: "?t = Finite (finiteValue ?t)
              \<and> (\<forall>k \<le> i. ?d ! k = Finite (finiteValue (?d ! k))
                     \<and> representable (finiteValue (?d ! k) - finiteValue ?t)
                     \<and> representable (sum_list (map finiteValue (take (k + 1) ?d))
                                       - real (k + 1) * finiteValue ?t))"
      have il: "i < length ?d" using i by simp
      have "foldl (\<lambda>acc k. double_add acc (double_sub (?d ! k) ?t)) (double_sub (?d ! 0) ?t)
              [1..<Suc i]
            = Finite (sum_list (map finiteValue (take (i + 1) ?d)) - real (i + 1) * finiteValue ?t)"
        using h by (intro running_exact [of ?t "finiteValue ?t" i ?d] il) blast+
      then show "xfade_offset (filterParts ?opts ! i)
                = Finite (sum_list (map finiteValue (take (i + 1) ?d))
                          - real (i + 1) * finiteValue ?t)"
        using off by simp
    qed
    show ?thesis
      using a off x at [OF i] e by (intro conjI) simp_all
  qed
  show "let N = length (frames tmpl);
        d = map (\<lambda>f. divideBy (case durationMs f of None \<Rightarrow> Finite 3000
                                 | Some ms \<Rightarrow> if ms = Finite 0 \<or> ms = NaN then Finite 3000 else ms)
                       1000) (frames tmpl);
        t = divideBy (case transition tmpl of None \<Rightarrow> Finite 800
                      | Some tr \<Rightarrow> if transition_durationMs tr = Finite 0
                                      \<or> transition_durationMs tr = NaN
                                   then Finite 800 else transition_durationMs tr) 1000;
        parts = filterParts (xfadeOptions enc tmpl paths)
    in length parts = N - 1
       \<and> (\<forall>i < N - 1.
            inputA (parts ! i) = (if i = 0 then RawFrame 0 else outputLabel (parts ! (i - 1)))
          \<and> inputB (parts ! i) = RawFrame (i + 1)
          \<and> xfade_duration (parts ! i) = t
          \<and> xfade_offset (parts ! i)
              = foldl (\<lambda>acc k. double_add acc (double_sub (d ! k) t)) (double_sub (d ! 0) t)
                  [1..<i + 1]
          \<and> (t = Finite (finiteValue t)
              \<and> (\<forall>k \<le> i. d ! k = Finite (finiteValue (d ! k))
                     \<and> representable (finiteValue (d ! k) - finiteValue t)
                     \<and> representable (sum_list (map finiteValue (take (k + 1) d))
                                       - real (k + 1) * finiteValue t)) \<longrightarrow>
              xfade_offset (parts ! i)
                = Finite (sum_list (map finiteValue (take (i + 1) d))
                          - real (i + 1) * finiteValue t))
          \<and> formatSuffix (parts ! i) = (i = N - 2)
          \<and> outputLabel (parts ! i) = (if i = N - 2 then Final else Chained (i + 1)))"
    unfolding Let_def using len each by blast
qed

lemmas double_eval = roundDouble_def binaryExponent_def roundHalfEven_def pow2_def
  bitLength.simps representable_def divideBy_def double_sub_def Let_def

lemma map_two: "length xs = 2 \<Longrightarrow> map f xs = [f (xs ! 0), f (xs ! 1)]"
proof -
  assume l: "length xs = 2"
  then obtain a ys where a: "xs = a # ys" by (cases xs) auto
  then obtain b zs where b: "ys = b # zs" using l by (cases ys) auto
  then have "zs = []" using l a by simp
  then show ?thesis using a b by simp
qed

theorem xfade_filter_chain_witness:
  "length (filterParts (xfadeOptions sampleEncoder
       (sampleVideo [Some 2000, None, Some 5000]
          (Some \<lparr>transition_type = Crossfade, transition_durationMs = Finite 500\<rparr>))
       [''a'', ''b'', ''c''])) = 2
   \<and> map xfade_offset (filterParts (xfadeOptions sampleEncoder
       (sampleVideo [Some 2000, None, Some 5000]
          (Some \<lparr>transition_type = Crossfade, transition_durationMs = Finite 500\<rparr>))
       [''a'', ''b'', ''c'']))
     = [Finite (3 / 2), Finite 4]
   \<and> map inputA (filterParts (xfadeOptions sampleEncoder
       (sampleVideo [Some 2000, None, Some 5000]
          (Some \<lparr>transition_type = Crossfade, transition_durationMs = Finite 500\<rparr>))
       [''a'', ''b'', ''c'']))
     = [RawFrame 0, Chained 1]
   \<and> map outputLabel (filterParts (xfadeOptions sampleEncoder
       (sampleVideo [Some 2000, None, Some 5000]
          (Some \<lparr>transition_type = Crossfade, transition_durationMs = Finite 500\<rparr>))
       [''a'', ''b'', ''c'']))
     = [Chained 1, Final]"
proof -
  let ?tmpl = "sampleVideo [Some 2000, None, Some 5000]
          (Some \<lparr>transition_type = Crossfade, transition_durationMs = Finite 500\<rparr>)"
  let ?paths = "[''a'', ''b'', ''c'']"
  let ?parts = "filterParts (xfadeOptions sampleEncoder ?tmpl ?paths)"
  have f: "frames ?tmpl = [holdFrame (Some 2000), holdFrame None, holdFrame (Some 5000)]"
    by (simp add: sampleVideo_def sampleTemplate_def)
  have tr: "transition ?tmpl = Some \<lparr>transition_type = Crossfade, transition_durationMs = Finite 500\<rparr>"
    by (simp add: sampleVideo_def sampleTemplate_def)
  have h: "2 \<le> length (frames ?tmpl) \<and> length ?paths = length (frames ?tmpl)"
    by (simp add: f)
  have d: "map (\<lambda>f. divideBy (case durationMs f of None \<Rightarrow> Finite 3000
                                 | Some ms \<Rightarrow> if ms = Finite 0 \<or> ms = NaN then Finite 3000 else ms)
                       1000) (frames ?tmpl)
           = [Finite 2, Finite 3, Finite 5]"
    by (simp add: f holdFrame_def double_eval)
  have t: "divideBy (case transition ?tmpl of None \<Rightarrow> Finite 800
                      | Some tr \<Rightarrow> if transition_durationMs tr = Finite 0
                                      \<or> transition_durationMs tr = NaN
                                   then Finite 800 else transition_durationMs tr) 1000
           = Finite (1 / 2)"
    by (simp add: tr double_eval)
  have n: "length (frames ?tmpl) = 3" by (simp add: f)
  have r: "representable (3 / 2)" "representable (5 / 2)" "representable 4"
    by (simp_all add: double_eval)
  note main = xfade_filter_chain [of ?tmpl ?paths sampleEncoder, THEN mp, OF h,
      unfolded Let_def d t n]
  have len: "length ?parts = 2" using main [THEN conjunct1] by simp
  have s0: "xfade_offset (?parts ! 0) = Finite (3 / 2) \<and> inputA (?parts ! 0) = RawFrame 0
      \<and> outputLabel (?parts ! 0) = Chained 1"
    using main [THEN conjunct2, THEN spec, of 0] r by (simp add: double_eval)
  have o1: "outputLabel (?parts ! (1 - 1)) = Chained 1" using s0 by simp
  have s1: "xfade_offset (?parts ! 1) = Finite 4 \<and> inputA (?parts ! 1) = Chained 1
      \<and> outputLabel (?parts ! 1) = Final"
    using main [THEN conjunct2, THEN spec, of 1] r o1 by (simp add: le_Suc_eq double_eval)
  show ?thesis
    using len s0 s1 map_two [OF len, of xfade_offset] map_two [OF len, of inputA]
      map_two [OF len, of outputLabel]
    by simp
qed

text \<open>
  The claim as stated takes a frame's own duration for its hold time whenever it has one,
  and has the offset equal to the sum of the hold times less the transition times. A frame
  with the duration 0 is held for the default of three seconds: with a transition of
  500 ms the first offset is 2.5 seconds, where the claim has \<open>0 - 0.5\<close>. And the offset
  is a sum of doubles: with hold times of 2 and 3 seconds and the default transition the
  second offset is the double next above the one nearest to \<open>2 + 3 - 2 * 0.8\<close>.
\<close>

theorem xfade_offset_counterexample:
  "xfade_offset (filterParts (xfadeOptions sampleEncoder
       (sampleVideo [Some 0, Some 2000]
          (Some \<lparr>transition_type = Crossfade, transition_durationMs = Finite 500\<rparr>))
       [''a'', ''b'']) ! 0) = Finite (5 / 2)
   \<and> claimedOffset (sampleVideo [Some 0, Some 2000]
          (Some \<lparr>transition_type = Crossfade, transition_durationMs = Finite 500\<rparr>)) 0 = - 1 / 2
   \<and> xfade_offset (filterParts (xfadeOptions sampleEncoder
       (sampleVideo [Some 2000, None, Some 5000] None) [''a'', ''b'', ''c'']) ! 1)
       = Finite (7656119366529844 / 2251799813685248)
   \<and> claimedOffset (sampleVideo [Some 2000, None, Some 5000] None) 1 = 17 / 5
   \<and> roundDouble (17 / 5) = Finite (7656119366529843 / 2251799813685248)"
proof -
  let ?tr = "Some \<lparr>transition_type = Crossfade, transition_durationMs = Finite 500\<rparr>"
  have d0: "frameDurationSec (sampleVideo [Some 0, Some 2000] ?tr) = [Finite 3, Finite 2]"
    by (simp add: frameDurationSec_def sampleVideo_def sampleTemplate_def holdFrame_def
        or_double_def double_eval)
  have t0: "transitionDurationSec (sampleVideo [Some 0, Some 2000] ?tr) = Finite (1 / 2)"
    by (simp add: transitionDurationSec_def sampleVideo_def sampleTemplate_def or_double_def
        double_eval)
  have a: "xfade_offset (filterParts (xfadeOptions sampleEncoder
       (sampleVideo [Some 0, Some 2000] ?tr) [''a'', ''b'']) ! 0) = Finite (5 / 2)"
    by (simp add: filterParts_def xfadeOptions_def d0 t0 js_index_def numberOf_def double_eval)
  have b: "claimedOffset (sampleVideo [Some 0, Some 2000] ?tr) 0 = - 1 / 2"
    by (simp add: claimedOffset_def sampleVideo_def sampleTemplate_def holdFrame_def)
  have d1: "frameDurationSec (sampleVideo [Some 2000, None, Some 5000] None)
      = [Finite 2, Finite 3, Finite 5]"
    by (simp add: frameDurationSec_def sampleVideo_def sampleTemplate_def holdFrame_def
        or_double_def double_eval)
  have t1: "transitionDurationSec (sampleVideo [Some 2000, None, Some 5000] None)
      = Finite (3602879701896397 / 4503599627370496)"
    by (simp add: transitionDurationSec_def sampleVideo_def sampleTemplate_def or_double_def
        double_eval)
  have u: "[0..<2] = [0, 1]" by (simp add: upt_conv_Cons)
  have c: "xfade_offset (filterParts (xfadeOptions sampleEncoder
       (sampleVideo [Some 2000, None, Some 5000] None) [''a'', ''b'', ''c'']) ! 1)
       = Finite (7656119366529844 / 2251799813685248)"
    by (simp add: filterParts_def xfadeOptions_def d1 t1 u js_index_def numberOf_def
        double_eval)
  have e: "claimedOffset (sampleVideo [Some 2000, None, Some 5000] None) 1 = 17 / 5"
    by (simp add: claimedOffset_def sampleVideo_def sampleTemplate_def holdFrame_def)
  have g: "roundDouble (17 / 5) = Finite (7656119366529843 / 2251799813685248)"
    by (simp add: double_eval)
  show ?thesis using a b c e g by (intro conjI)
qed

subsection \<open>The frame count required of a video\<close>

lemma wrapText_error:
  "wrapText measureText s maxWidth maxLines = Inl e \<Longrightarrow> e = TypeError ''lastLine is undefined''"
  by (auto simp add: wrapText_def Let_def split: option.splits if_splits)

lemma drawText_error:
  "drawText host c layer variables colorVars = Throws e c' \<Longrightarrow>
   e = TypeError ''lastLine is undefined''"
  by (auto simp add: drawText_def Let_def split: if_splits sum.splits dest: wrapText_error)

lemma drawLayer_error:
  "drawLayer host c layer variables colorVars userImages logoImage = Throws e c' \<Longrightarrow>
   e = TypeError ''lastLine is undefined''"
  by (auto simp add: drawLayer_def drawVariant_def Let_def
      split: LayerDefinition.splits Completion.splits dest: drawText_error)

lemma drawLayers_error:
  "drawLayers host c ls variables colorVars userImages logoImage = Throws e c' \<Longrightarrow>
   e = TypeError ''lastLine is undefined''"
proof (induction ls arbitrary: c)
  case Nil
  then show ?case by simp
next
  case (Cons layer rest)
  show ?case
  proof (cases "layerVisible layer = Some False")
    case True
    then show ?thesis using Cons.prems Cons.IH by simp
  next
    case False
    show ?thesis
    proof (cases "drawLayer host c layer variables colorVars userImages logoImage")
      case (Returns c1)
      then show ?thesis using False Cons.prems Cons.IH by simp
    next
      case (Throws e1 c1)
      then have "e = e1" using False Cons.prems by simp
      then show ?thesis using drawLayer_error [OF Throws] by simp
    qed
  qed
qed

lemma renderPng_error:
  "renderPng host ctx = Inl e \<Longrightarrow>
   e = Error ''Frame not found in template'' \<or> e = TypeError ''lastLine is undefined''"
  by (auto simp add: renderPng_def Let_def split: option.splits Completion.splits
      dest: drawLayers_error)

lemma renderFrames_error:
  "renderFrames host enc ctx indices = (effects, Inl e) \<Longrightarrow>
   e = Error ''Frame not found in template'' \<or> e = TypeError ''lastLine is undefined''"
proof (induction indices arbitrary: effects)
  case Nil
  then show ?case by simp
next
  case (Cons i rest)
  let ?png = "renderPng host
             \<lparr>ctx_template = mp4_template ctx, ctx_variables = mp4_variables ctx,
              ctx_userImages = mp4_userImages ctx, ctx_logoImage = mp4_logoImage ctx,
              ctx_frameIndex = Some (int i)\<rparr>"
  show ?case
  proof (cases ?png)
    case (Inl e1)
    then have "e = e1" using Cons.prems by simp
    then show ?thesis using renderPng_error [OF Inl] by simp
  next
    case (Inr buf)
    obtain effs r where rest: "renderFrames host enc ctx rest = (effs, r)"
      by (cases "renderFrames host enc ctx rest")
    have "r = Inl e" using Cons.prems Inr rest by (cases r) simp_all
    then show ?thesis using Cons.IH rest by simp
  qed
qed

text \<open>
  Claim C9. On a template with fewer than two frames \<open>renderMp4\<close> throws, and has then had
  no effect at all: no frame rendered, no directory made, no file written, the encoder not
  run. On a template with two frames or more the check is passed: the first effect is the
  making of the temporary directory, and whatever the outcome, it is not the error of the
  check.
\<close>

theorem renderMp4_requires_two_frames:
  "(length (frames (mp4_template ctx)) < 2 \<longrightarrow>
      renderMp4 host enc ctx = ([], Inl (Error ''MP4 templates require at least 2 frames'')))
   \<and> (2 \<le> length (frames (mp4_template ctx)) \<longrightarrow>
        (\<exists>effects r. renderMp4 host enc ctx = (MakeTmpDir # effects, r)
           \<and> r \<noteq> Inl (Error ''MP4 templates require at least 2 frames'')))"
proof (intro conjI impI)
  assume "length (frames (mp4_template ctx)) < 2"
  then show "renderMp4 host enc ctx = ([], Inl (Error ''MP4 templates require at least 2 frames''))"
    by (simp add: renderMp4_def Let_def)
next
  assume n: "2 \<le> length (frames (mp4_template ctx))"
  let ?n = "length (frames (mp4_template ctx))"
  obtain effs r where fr: "renderFrames host enc ctx [0..<?n] = (effs, r)"
    by (cases "renderFrames host enc ctx [0..<?n]")
  show "\<exists>effects r. renderMp4 host enc ctx = (MakeTmpDir # effects, r)
           \<and> r \<noteq> Inl (Error ''MP4 templates require at least 2 frames'')"
  proof (cases r)
    case (Inl e)
    have "e = Error ''Frame not found in template'' \<or> e = TypeError ''lastLine is undefined''"
      using renderFrames_error fr Inl by simp
    then have "e \<noteq> Error ''MP4 templates require at least 2 frames''" by auto
    moreover have "renderMp4 host enc ctx = (MakeTmpDir # effs @ [RemoveTmpDir], Inl e)"
      using n fr Inl by (simp add: renderMp4_def Let_def)
    ultimately show ?thesis by simp
  next
    case (Inr paths)
    let ?opts = "xfadeOptions enc (mp4_template ctx) paths"
    show ?thesis
    proof (cases "runEncoder enc (ffmpegCommand host ?opts)")
      case (Inl msg)
      have "renderMp4 host enc ctx =
          (MakeTmpDir # effs @ [RunEncoder (ffmpegCommand host ?opts), RemoveTmpDir],
           Inl (Error (''FFmpeg error: '' @ msg)))"
        using n fr Inr Inl by (simp add: renderMp4_def buildMp4WithXfade_def Let_def)
      then show ?thesis by simp
    next
      case (Inr bytes)
      have "renderMp4 host enc ctx =
          (MakeTmpDir # effs @ [RunEncoder (ffmpegCommand host ?opts), ReadOutput, RemoveTmpDir],
           Inr bytes)"
        using n fr \<open>r = Inr paths\<close> Inr by (simp add: renderMp4_def buildMp4WithXfade_def Let_def)
      then show ?thesis by simp
    qed
  qed
qed

lemma renderPng_holdFrame:
  "js_index (frames tmpl) (int i) = Some (holdFrame ms) \<Longrightarrow>
   \<exists>buf. renderPng host \<lparr>ctx_template = tmpl, ctx_variables = v, ctx_userImages = imgs,
        ctx_logoImage = logo, ctx_frameIndex = Some (int i)\<rparr> = Inr buf"
  by (simp add: renderPng_def holdFrame_def Let_def)

theorem renderMp4_requires_two_frames_witness:
  "renderMp4 sampleHost sampleEncoder (sampleMp4Context [None])
     = ([], Inl (Error ''MP4 templates require at least 2 frames''))
   \<and> (\<exists>effects r. renderMp4 sampleHost sampleEncoder (sampleMp4Context [None, Some 2000])
         = (MakeTmpDir # effects, r)
        \<and> r \<noteq> Inl (Error ''MP4 templates require at least 2 frames''))
   \<and> renderMp4 sampleHost sampleEncoder (sampleMp4Context [None, Some 2000])
     = ([MakeTmpDir, RenderFrame 0, WriteFile ''/tmp/render-mp4-a/frame_000.png'',
         RenderFrame 1, WriteFile ''/tmp/render-mp4-a/frame_001.png'',
         RunEncoder (ffmpegCommand sampleHost
           (xfadeOptions sampleEncoder (sampleVideo [None, Some 2000] None)
              [''/tmp/render-mp4-a/frame_000.png'', ''/tmp/render-mp4-a/frame_001.png''])),
         ReadOutput, RemoveTmpDir], Inr [2])"
proof -
  have one: "length (frames (mp4_template (sampleMp4Context [None]))) < 2"
    by (simp add: sampleMp4Context_def sampleVideo_def sampleTemplate_def)
  have two: "2 \<le> length (frames (mp4_template (sampleMp4Context [None, Some 2000])))"
    by (simp add: sampleMp4Context_def sampleVideo_def sampleTemplate_def)
  note a = renderMp4_requires_two_frames [of "sampleMp4Context [None]" sampleHost sampleEncoder,
      THEN conjunct1, THEN mp, OF one]
  note b = renderMp4_requires_two_frames [of "sampleMp4Context [None, Some 2000]" sampleHost
      sampleEncoder, THEN conjunct2, THEN mp, OF two]
  let ?tmpl = "sampleVideo [None, Some 2000] None"
  have f: "frames ?tmpl = [holdFrame None, holdFrame (Some 2000)]"
    by (simp add: sampleVideo_def sampleTemplate_def)
  obtain b0 where b0: "renderPng sampleHost \<lparr>ctx_template = ?tmpl, ctx_variables = sampleVariables,
        ctx_userImages = [], ctx_logoImage = None, ctx_frameIndex = Some (int 0)\<rparr> = Inr b0"
    using renderPng_holdFrame [of ?tmpl 0 None sampleHost sampleVariables "[]" None] by (auto simp add: f js_index_def)
  obtain b1 where b1: "renderPng sampleHost \<lparr>ctx_template = ?tmpl, ctx_variables = sampleVariables,
        ctx_userImages = [], ctx_logoImage = None, ctx_frameIndex = Some (int 1)\<rparr> = Inr b1"
    using renderPng_holdFrame [of ?tmpl 1 "Some 2000" sampleHost sampleVariables "[]" None] by (auto simp add: f js_index_def)
  have p0: "framePath sampleEncoder 0 = ''/tmp/render-mp4-a/frame_000.png''"
    by (simp add: framePath_def sampleEncoder_def padStart3_def showNat.simps numeral_2_eq_2)
  have p1: "framePath sampleEncoder 1 = ''/tmp/render-mp4-a/frame_001.png''"
    by (simp add: framePath_def sampleEncoder_def padStart3_def showNat.simps numeral_2_eq_2)
  have mt: "mp4_template (sampleMp4Context [None, Some 2000]) = ?tmpl"
    by (simp add: sampleMp4Context_def)
  have len: "length (frames ?tmpl) = 2" by (simp add: f)
  have u: "[0..<2] = [0, 1]" by (simp add: upt_conv_Cons)
  have rf: "renderFrames sampleHost sampleEncoder (sampleMp4Context [None, Some 2000]) [0..<2]
      = ([RenderFrame 0, WriteFile ''/tmp/render-mp4-a/frame_000.png'',
          RenderFrame 1, WriteFile ''/tmp/render-mp4-a/frame_001.png''],
         Inr [''/tmp/render-mp4-a/frame_000.png'', ''/tmp/render-mp4-a/frame_001.png''])"
    unfolding u using b0 b1 p0 p1 by (simp add: sampleMp4Context_def)
  have enc: "runEncoder sampleEncoder (ffmpegCommand sampleHost
           (xfadeOptions sampleEncoder ?tmpl
              [''/tmp/render-mp4-a/frame_000.png'', ''/tmp/render-mp4-a/frame_001.png'']))
      = Inr [2]"
    by (simp add: sampleEncoder_def ffmpegCommand_def ffmpegInputs_def xfadeOptions_def)
  have c: "renderMp4 sampleHost sampleEncoder (sampleMp4Context [None, Some 2000])
     = ([MakeTmpDir, RenderFrame 0, WriteFile ''/tmp/render-mp4-a/frame_000.png'',
         RenderFrame 1, WriteFile ''/tmp/render-mp4-a/frame_001.png'',
         RunEncoder (ffmpegCommand sampleHost
           (xfadeOptions sampleEncoder ?tmpl
              [''/tmp/render-mp4-a/frame_000.png'', ''/tmp/render-mp4-a/frame_001.png''])),
         ReadOutput, RemoveTmpDir], Inr [2])"
    using rf enc by (simp add: renderMp4_def buildMp4WithXfade_def Let_def mt len)
  show ?thesis using a b c by blast
qed

end
